theory Spec2Isabelle
  imports
    Complex_Main
    "HOL-Library.Multiset"
    "HOL-Library.Char_ord"
    "HOL-Library.List_Lexorder"
    "HOL-Library.Sublist"
begin

section \<open>Portfolio dashboard: the presentation layer (app/static/app.js)\<close>

text \<open>
  JavaScript strings are modelled as \<^typ>\<open>string\<close>: one \<^typ>\<open>char\<close> is one UTF-16 code
  unit below 256 (the Latin-1 range), which covers every literal of the source
  (u with diaeresis is code unit \<open>0xFC\<close>, the no-break space is \<open>0xA0\<close>). JavaScript numbers
  that come from JSON are finite doubles; they are modelled as \<^typ>\<open>real\<close>. Double
  arithmetic is not modelled: where the code computes with doubles, the operations are
  parameters, or only the sign of a difference is used.
\<close>

subsection \<open>Strings\<close>

text \<open>\<open>String.prototype.includes\<close>: \<open>sub\<close> occurs in \<open>s\<close> as a contiguous run.\<close>

fun str_includes :: "string \<Rightarrow> string \<Rightarrow> bool" where
  "str_includes [] sub = (sub = [])"
| "str_includes (c # cs) sub = (take (length sub) (c # cs) = sub \<or> str_includes cs sub)"

subsection \<open>Numbers\<close>

text \<open>
  A JavaScript number: a finite double, an infinity or \<open>NaN\<close>. The numbers that come
  from JSON are finite doubles, which are reals.
\<close>

datatype js_num = Finite real | PosInfinity | NegInfinity | NaN

subsection \<open>Property lookup on an object literal: \<open>txLabel\<close>, \<open>txBadge\<close> (app.js 140-153)\<close>

text \<open>
  The value of \<open>obj[k]\<close> for an object literal \<open>obj\<close> whose own properties are strings:
  the own property when there is one, otherwise the member that \<open>obj\<close> inherits from
  \<open>Object.prototype\<close> under that name (a built-in function, or the prototype object
  itself for \<open>__proto__\<close>), otherwise \<open>undefined\<close>.
\<close>

datatype prop_val = PStr string | PInherited string | PUndefined

definition Object_prototype_keys :: "string list" where
  "Object_prototype_keys =
     [''constructor'', ''__defineGetter__'', ''__defineSetter__'', ''hasOwnProperty'',
      ''__lookupGetter__'', ''__lookupSetter__'', ''isPrototypeOf'',
      ''propertyIsEnumerable'', ''toString'', ''valueOf'', ''__proto__'',
      ''toLocaleString'']"

definition get_property :: "(string \<times> string) list \<Rightarrow> string \<Rightarrow> prop_val" where
  "get_property own k =
     (case map_of own k of
        Some v \<Rightarrow> PStr v
      | None \<Rightarrow> if k \<in> set Object_prototype_keys then PInherited k else PUndefined)"

text \<open>Truthiness, as \<open>||\<close> tests it: the empty string and \<open>undefined\<close> are falsy, every object is truthy.\<close>

fun truthy_prop :: "prop_val \<Rightarrow> bool" where
  "truthy_prop (PStr s) = (s \<noteq> [])"
| "truthy_prop (PInherited k) = True"
| "truthy_prop PUndefined = False"

definition tx_labels :: "(string \<times> string) list" where
  "tx_labels =
     [(''PURCHASE'', ''Kauf''), (''SALE'', ''Verkauf''),
      (''INBOUND_DELIVERY'', ''Einlieferung''), (''OUTBOUND_DELIVERY'', ''Auslieferung''),
      (''SECURITY_TRANSFER'', ''Transfer''), (''CASH_TRANSFER'', ''Umbuchung''),
      (''DEPOSIT'', ''Einzahlung''), (''REMOVAL'', ''Auszahlung''),
      (''DIVIDEND'', ''Dividende''), (''INTEREST'', ''Zinsen''),
      (''INTEREST_CHARGE'', ''Zinsbelastung''), (''TAX'', ''Steuer''),
      (''TAX_REFUND'', ''Steuererstattung''), (''FEE'', ''Geb'' @ [CHR 0xFC] @ ''hr''),
      (''FEE_REFUND'', ''Geb'' @ [CHR 0xFC] @ ''hrenerstattung'')]"

text \<open>\<open>function txLabel(t) { return ({PURCHASE:"Kauf", ...})[t] || t; }\<close>\<close>

definition txLabel :: "string \<Rightarrow> prop_val" where
  "txLabel t = (let v = get_property tx_labels t in if truthy_prop v then v else PStr t)"

text \<open>\<open>txBadge\<close>: the CSS class chosen by the chain of \<open>includes\<close> tests, and the label inside the badge.\<close>

definition txBadge :: "string \<Rightarrow> string \<times> prop_val" where
  "txBadge type =
     (let cls =
        (if str_includes type ''PURCHASE'' \<or> str_includes type ''INBOUND'' then ''badge-purchase''
         else if str_includes type ''SALE'' \<or> str_includes type ''OUTBOUND'' then ''badge-sale''
         else if str_includes type ''DIVIDEND'' then ''badge-dividend''
         else if str_includes type ''DEPOSIT'' then ''badge-deposit''
         else if str_includes type ''FEE'' \<or> str_includes type ''TAX'' then ''badge-fee''
         else ''badge-other'')
      in (cls, txLabel type))"

subsection \<open>\<open>esc\<close> (app.js 138)\<close>

text \<open>The values \<open>esc\<close> is called with: fields of JSON objects (numbers apart) and \<open>undefined\<close> for an absent field.\<close>

datatype js_val = JUndefined | JNull | JBool bool | JStr string

fun falsy :: "js_val \<Rightarrow> bool" where
  "falsy JUndefined = True"
| "falsy JNull = True"
| "falsy (JBool b) = (\<not> b)"
| "falsy (JStr s) = (s = [])"

fun ToString :: "js_val \<Rightarrow> string" where
  "ToString JUndefined = ''undefined''"
| "ToString JNull = ''null''"
| "ToString (JBool b) = (if b then ''true'' else ''false'')"
| "ToString (JStr s) = s"

text \<open>
  The part of the DOM that \<open>esc\<close> uses: an element with text children, the
  \<open>textContent\<close> setter (all children replaced by one text node, none for the empty
  string) and the \<open>innerHTML\<close> getter, which serialises a text node by escaping
  \<open>&\<close>, the no-break space, \<open><\<close> and \<open>>\<close> and nothing else.
\<close>

datatype node = TextNode string

record element =
  tagName :: string
  childNodes :: "node list"

definition createElement :: "string \<Rightarrow> element" where
  "createElement t = \<lparr>tagName = t, childNodes = []\<rparr>"

definition set_textContent :: "element \<Rightarrow> string \<Rightarrow> element" where
  "set_textContent e s = e\<lparr>childNodes := (if s = [] then [] else [TextNode s])\<rparr>"

definition escape_char :: "char \<Rightarrow> string" where
  "escape_char c =
     (if c = CHR ''&'' then ''&amp;''
      else if c = CHR 0xA0 then ''&nbsp;''
      else if c = CHR ''<'' then ''&lt;''
      else if c = CHR ''>'' then ''&gt;''
      else [c])"

fun serialize_node :: "node \<Rightarrow> string" where
  "serialize_node (TextNode s) = concat (map escape_char s)"

definition innerHTML :: "element \<Rightarrow> string" where
  "innerHTML e = concat (map serialize_node (childNodes e))"

text \<open>\<open>function esc(s) { if (!s) return ""; const e = document.createElement("span"); e.textContent = s; return e.innerHTML; }\<close>\<close>

definition esc :: "js_val \<Rightarrow> string" where
  "esc s =
     (if falsy s then []
      else innerHTML (set_textContent (createElement ''span'') (ToString s)))"

text \<open>
  Where the templates put the result of \<open>esc\<close>. In element content the HTML tokenizer
  reads text up to the next \<open><\<close>; inside a double-quoted attribute value (as in
  \<open>value="${esc(s.azure_tenant_id)}"\<close>, app.js 645) it reads the value up to the next
  double quote.
\<close>

definition dquote :: char where
  "dquote = CHR 0x22"

definition text_run :: "string \<Rightarrow> string" where
  "text_run input = takeWhile (\<lambda>c. c \<noteq> CHR ''<'') input"

definition attr_value_double_quoted :: "string \<Rightarrow> string" where
  "attr_value_double_quoted input = takeWhile (\<lambda>c. c \<noteq> dquote) input"

subsection \<open>The dividend yield of \<open>tabDividenden\<close> (app.js 757)\<close>

text \<open>
  The quotient and the product of doubles are rounded and can overflow to an infinity;
  the arithmetic of the platform is not modelled, and the two operations are parameters
  of the code that uses them.
\<close>

text \<open>
  What the template puts before the percent sign:
  \<open>${c.total_invested>0?fmt(d.total/c.total_invested*100,2):0}\<close>, either a number handed
  to \<open>fmt\<close> with its number of decimals, or the literal \<open>0\<close>.
\<close>

datatype yield_cell = Formatted js_num nat | Literal_zero

text \<open>
  The evaluation of that expression: the cell, and the divisions that were performed on
  the way, each as the pair of its dividend and its divisor. \<open>fdiv a b\<close> is the double
  \<open>a / b\<close> and \<open>fmul x b\<close> the double \<open>x * b\<close>.
\<close>

record yield_eval =
  cell :: yield_cell
  divisions :: "(real \<times> real) list"

definition tabDividenden_rendite ::
  "(real \<Rightarrow> real \<Rightarrow> js_num) \<Rightarrow> (js_num \<Rightarrow> real \<Rightarrow> js_num) \<Rightarrow> real \<Rightarrow> real \<Rightarrow> yield_eval" where
  "tabDividenden_rendite fdiv fmul d_total total_invested =
     (if total_invested > 0
      then \<lparr>cell = Formatted (fmul (fdiv d_total total_invested) 100) 2,
            divisions = [(d_total, total_invested)]\<rparr>
      else \<lparr>cell = Literal_zero, divisions = []\<rparr>)"

text \<open>
  Arithmetic without rounding and overflow, for the worked example: on its operands the
  double arithmetic is exact (\<open>1 / 4\<close> is \<open>0.25\<close> and \<open>0.25 * 100\<close> is \<open>25\<close>).
\<close>

definition exact_divide :: "real \<Rightarrow> real \<Rightarrow> js_num" where
  "exact_divide a b =
     (if b = 0 then (if a = 0 then NaN else if a > 0 then PosInfinity else NegInfinity)
      else Finite (a / b))"

fun exact_times :: "js_num \<Rightarrow> real \<Rightarrow> js_num" where
  "exact_times (Finite a) b = Finite (a * b)"
| "exact_times PosInfinity b = (if b > 0 then PosInfinity else if b < 0 then NegInfinity else NaN)"
| "exact_times NegInfinity b = (if b > 0 then NegInfinity else if b < 0 then PosInfinity else NaN)"
| "exact_times NaN b = NaN"

subsection \<open>The transaction table of \<open>tabTransaktionen\<close> (app.js 382-401)\<close>

record transaction =
  date :: string
  type :: string
  amount :: real
  currency :: string
  shares :: "real option"
  security_name :: "string option"
  account :: "string option"
  portfolio :: "string option"
  tx_note :: "string option"

definition TX_PER_PAGE :: int where
  "TX_PER_PAGE = 30"

text \<open>\<open>Array.prototype.slice(start, end)\<close> on integer arguments; a negative index counts from the end.\<close>

definition js_slice :: "'a list \<Rightarrow> int \<Rightarrow> int \<Rightarrow> 'a list" where
  "js_slice xs start stop =
     (let len = int (length xs);
          k = (if start < 0 then max (len + start) 0 else min start len);
          final = (if stop < 0 then max (len + stop) 0 else min stop len)
      in take (nat (final - k)) (drop (nat k) xs))"

text \<open>The three constants the function computes before it renders: \<open>filtered\<close>, \<open>paged\<close>, \<open>totalPages\<close>.\<close>

record tx_table =
  filtered :: "transaction list"
  paged :: "transaction list"
  totalPages :: int

text \<open>\<open>txFilter === "ALL" ? c.all_transactions : c.all_transactions.filter(t => t.type === txFilter)\<close>\<close>

definition tx_flt :: "string \<Rightarrow> transaction list \<Rightarrow> transaction list" where
  "tx_flt txFilter all_transactions =
     (if txFilter = ''ALL'' then all_transactions
      else filter (\<lambda>t. type t = txFilter) all_transactions)"

definition tabTransaktionen :: "string \<Rightarrow> int \<Rightarrow> transaction list \<Rightarrow> tx_table" where
  "tabTransaktionen txFilter txPage all_transactions =
     (let flt = tx_flt txFilter all_transactions
      in \<lparr>filtered = flt,
          paged = js_slice flt (txPage * TX_PER_PAGE) ((txPage + 1) * TX_PER_PAGE),
          totalPages = \<lceil>real (length flt) / real_of_int TX_PER_PAGE\<rceil>\<rparr>)"

text \<open>Two transactions for the worked example of the paging.\<close>

definition sale_tx :: transaction where
  "sale_tx = \<lparr>date = ''2024-03-01'', type = ''SALE'', amount = 100, currency = ''CHF'',
              shares = Some 2, security_name = Some ''ACME'', account = None,
              portfolio = Some ''Depot'', tx_note = None\<rparr>"

definition fee_tx :: transaction where
  "fee_tx = \<lparr>date = ''2024-03-02'', type = ''FEE'', amount = 5, currency = ''CHF'',
             shares = None, security_name = None, account = Some ''Konto'',
             portfolio = None, tx_note = None\<rparr>"

subsection \<open>The household-finance table: \<open>getFilteredFinTx\<close> (app.js 534-554)\<close>

text \<open>
  One entry of \<open>financeTransactions\<close>. The text fields are JSON strings or \<open>null\<close>
  (\<open>None\<close>); \<open>betrag\<close> is the one numeric field.
\<close>

record fin_tx =
  datum :: "string option"
  titel :: "string option"
  empfaenger :: "string option"
  detail_beschrieb :: "string option"
  kategorie :: "string option"
  art :: "string option"
  konto :: "string option"
  betrag :: real

record fin_filter =
  f_search :: string
  f_kategorie :: string
  f_art :: string
  f_konto :: string
  f_startDatum :: string
  f_endDatum :: string

datatype sort_field =
  F_datum | F_titel | F_empfaenger | F_detail_beschrieb | F_kategorie | F_art | F_konto | F_betrag

record fin_sort =
  field :: sort_field
  dir :: string

text \<open>\<open>String.prototype.toLowerCase\<close> on code units below 256: \<open>A-Z\<close> and the accented capitals \<open>0xC0-0xDE\<close> (the multiplication sign \<open>0xD7\<close> apart) move up by 32.\<close>

definition lower_char :: "char \<Rightarrow> char" where
  "lower_char c =
     (let n = (of_char c :: nat)
      in if (65 \<le> n \<and> n \<le> 90) \<or> (192 \<le> n \<and> n \<le> 222 \<and> n \<noteq> 215)
         then char_of (n + 32) else c)"

definition toLowerCase :: "string \<Rightarrow> string" where
  "toLowerCase s = map lower_char s"

text \<open>\<open>v || ""\<close> for a field that is a string or \<open>null\<close>.\<close>

fun or_empty :: "string option \<Rightarrow> string" where
  "or_empty None = []"
| "or_empty (Some s) = s"

text \<open>\<open>t.k === s\<close> between a field and a string: \<open>null\<close> is not equal to a string.\<close>

fun strict_eq :: "string option \<Rightarrow> string \<Rightarrow> bool" where
  "strict_eq None s = False"
| "strict_eq (Some v) s = (v = s)"

text \<open>
  The relational operators \<open>t.datum >= s\<close> and \<open>t.datum <= s\<close> between a field and a
  string. Two strings compare by code units. \<open>null\<close> is not a string, so both operands
  are converted to numbers: \<open>null\<close> to \<open>0\<close> and the string \<open>s\<close> by the built-in
  \<open>ToNumber\<close>, which is a parameter here; every comparison with \<open>NaN\<close> is false.
\<close>

fun js_ge :: "(string \<Rightarrow> js_num) \<Rightarrow> string option \<Rightarrow> string \<Rightarrow> bool" where
  "js_ge to_number (Some v) s = (s \<le> v)"
| "js_ge to_number None s =
     (case to_number s of
        Finite x \<Rightarrow> x \<le> 0 | NegInfinity \<Rightarrow> True | PosInfinity \<Rightarrow> False | NaN \<Rightarrow> False)"

fun js_le :: "(string \<Rightarrow> js_num) \<Rightarrow> string option \<Rightarrow> string \<Rightarrow> bool" where
  "js_le to_number (Some v) s = (v \<le> s)"
| "js_le to_number None s =
     (case to_number s of
        Finite x \<Rightarrow> 0 \<le> x | PosInfinity \<Rightarrow> True | NegInfinity \<Rightarrow> False | NaN \<Rightarrow> False)"

text \<open>
  Arrays are objects on a heap: a reference is an index into the list of all arrays.
  \<open>filter\<close> and the spread \<open>[...txs]\<close> allocate a new array; \<open>sort\<close> reorders the array
  it is called on, in place, and returns the same reference.
\<close>

type_synonym ref = nat
type_synonym heap = "fin_tx list list"

definition array_filter :: "(fin_tx \<Rightarrow> bool) \<Rightarrow> ref \<times> heap \<Rightarrow> ref \<times> heap" where
  "array_filter P rh = (case rh of (r, h) \<Rightarrow> (length h, h @ [filter P (h ! r)]))"

definition array_spread :: "ref \<times> heap \<Rightarrow> ref \<times> heap" where
  "array_spread rh = (case rh of (r, h) \<Rightarrow> (length h, h @ [h ! r]))"

text \<open>
  \<open>Array.prototype.sort\<close> with a comparison function: a stable sort, here by insertion
  from the right. \<open>x\<close> goes before \<open>y\<close> unless the comparison is positive.
\<close>

fun insert_sorted :: "('a \<Rightarrow> 'a \<Rightarrow> real) \<Rightarrow> 'a \<Rightarrow> 'a list \<Rightarrow> 'a list" where
  "insert_sorted cmp x [] = [x]"
| "insert_sorted cmp x (y # ys) =
     (if cmp x y \<le> 0 then x # y # ys else y # insert_sorted cmp x ys)"

definition js_sort :: "('a \<Rightarrow> 'a \<Rightarrow> real) \<Rightarrow> 'a list \<Rightarrow> 'a list" where
  "js_sort cmp xs = foldr (insert_sorted cmp) xs []"

definition array_sort :: "(fin_tx \<Rightarrow> fin_tx \<Rightarrow> real) \<Rightarrow> ref \<times> heap \<Rightarrow> ref \<times> heap" where
  "array_sort cmp rh = (case rh of (r, h) \<Rightarrow> (r, h[r := js_sort cmp (h ! r)]))"

text \<open>\<open>a[field]\<close> for the text fields.\<close>

fun text_field :: "sort_field \<Rightarrow> fin_tx \<Rightarrow> string option" where
  "text_field F_datum t = datum t"
| "text_field F_titel t = titel t"
| "text_field F_empfaenger t = empfaenger t"
| "text_field F_detail_beschrieb t = detail_beschrieb t"
| "text_field F_kategorie t = kategorie t"
| "text_field F_art t = art t"
| "text_field F_konto t = konto t"
| "text_field F_betrag t = None"

text \<open>
  The comparison function of the sort. \<open>typeof va === "number" && typeof vb === "number"\<close>
  holds exactly when the field is \<open>betrag\<close>. \<open>localeCompare\<close> is the collation of the
  browser's locale and is a parameter. The sort looks at the sign of the result only,
  and the difference of two doubles has the sign of their exact difference.
\<close>

definition fin_compare ::
  "(string \<Rightarrow> string \<Rightarrow> int) \<Rightarrow> sort_field \<Rightarrow> real \<Rightarrow> fin_tx \<Rightarrow> fin_tx \<Rightarrow> real" where
  "fin_compare localeCompare fld d a b =
     (if fld = F_betrag then (betrag a - betrag b) * d
      else real_of_int (localeCompare (or_empty (text_field fld a)) (or_empty (text_field fld b))) * d)"

record fin_state =
  financeTransactions :: ref
  finFilter :: fin_filter
  finSort :: fin_sort

text \<open>\<open>if (cond) txs = txs.filter(p)\<close>\<close>

definition filter_if :: "bool \<Rightarrow> (fin_tx \<Rightarrow> bool) \<Rightarrow> ref \<times> heap \<Rightarrow> ref \<times> heap" where
  "filter_if cond p rh = (if cond then array_filter p rh else rh)"

definition search_hit :: "string \<Rightarrow> fin_tx \<Rightarrow> bool" where
  "search_hit s t =
     (str_includes (toLowerCase (or_empty (titel t))) s
      \<or> str_includes (toLowerCase (or_empty (empfaenger t))) s
      \<or> str_includes (toLowerCase (or_empty (detail_beschrieb t))) s
      \<or> str_includes (toLowerCase (or_empty (kategorie t))) s)"

definition getFilteredFinTx ::
  "(string \<Rightarrow> js_num) \<Rightarrow> (string \<Rightarrow> string \<Rightarrow> int) \<Rightarrow> fin_state \<Rightarrow> heap \<Rightarrow> ref \<times> heap" where
  "getFilteredFinTx to_number localeCompare st h =
     (let flt = finFilter st;
          txs = (financeTransactions st, h);
          txs = filter_if (f_search flt \<noteq> []) (search_hit (toLowerCase (f_search flt))) txs;
          txs = filter_if (f_kategorie flt \<noteq> []) (\<lambda>t. strict_eq (kategorie t) (f_kategorie flt)) txs;
          txs = filter_if (f_art flt \<noteq> []) (\<lambda>t. strict_eq (art t) (f_art flt)) txs;
          txs = filter_if (f_konto flt \<noteq> []) (\<lambda>t. strict_eq (konto t) (f_konto flt)) txs;
          txs = filter_if (f_startDatum flt \<noteq> []) (\<lambda>t. js_ge to_number (datum t) (f_startDatum flt)) txs;
          txs = filter_if (f_endDatum flt \<noteq> []) (\<lambda>t. js_le to_number (datum t) (f_endDatum flt)) txs;
          fld = field (finSort st);
          d = (if dir (finSort st) = ''desc'' then -1 else 1)
      in array_sort (fin_compare localeCompare fld d) (array_spread txs))"

text \<open>
  The claim's reading of the result, to compare with the code; it is stated on its own
  terms and uses none of the functions of the code above. Letters are compared without
  regard to case: the capital letters of the Latin-1 range, each with its small letter.
\<close>

definition capital_letters :: string where
  "capital_letters = ''ABCDEFGHIJKLMNOPQRSTUVWXYZ''
     @ [CHR 0xC0, CHR 0xC1, CHR 0xC2, CHR 0xC3, CHR 0xC4, CHR 0xC5, CHR 0xC6, CHR 0xC7,
        CHR 0xC8, CHR 0xC9, CHR 0xCA, CHR 0xCB, CHR 0xCC, CHR 0xCD, CHR 0xCE, CHR 0xCF,
        CHR 0xD0, CHR 0xD1, CHR 0xD2, CHR 0xD3, CHR 0xD4, CHR 0xD5, CHR 0xD6,
        CHR 0xD8, CHR 0xD9, CHR 0xDA, CHR 0xDB, CHR 0xDC, CHR 0xDD, CHR 0xDE]"

definition small_letters :: string where
  "small_letters = ''abcdefghijklmnopqrstuvwxyz''
     @ [CHR 0xE0, CHR 0xE1, CHR 0xE2, CHR 0xE3, CHR 0xE4, CHR 0xE5, CHR 0xE6, CHR 0xE7,
        CHR 0xE8, CHR 0xE9, CHR 0xEA, CHR 0xEB, CHR 0xEC, CHR 0xED, CHR 0xEE, CHR 0xEF,
        CHR 0xF0, CHR 0xF1, CHR 0xF2, CHR 0xF3, CHR 0xF4, CHR 0xF5, CHR 0xF6,
        CHR 0xF8, CHR 0xF9, CHR 0xFA, CHR 0xFB, CHR 0xFC, CHR 0xFD, CHR 0xFE]"

definition small_letter :: "char \<Rightarrow> char" where
  "small_letter c =
     (case map_of (zip capital_letters small_letters) c of Some l \<Rightarrow> l | None \<Rightarrow> c)"

text \<open>
  The search text occurs in a text as a contiguous run, case ignored; a field that is
  \<open>null\<close> has no text to search.
\<close>

definition occurs_ignoring_case :: "string \<Rightarrow> string \<Rightarrow> bool" where
  "occurs_ignoring_case sub s = sublist (map small_letter sub) (map small_letter s)"

definition text_matches :: "string \<Rightarrow> string option \<Rightarrow> bool" where
  "text_matches sub v = (case v of None \<Rightarrow> False | Some s \<Rightarrow> occurs_ignoring_case sub s)"

text \<open>
  A transaction passes when it satisfies every filter whose string is not empty: the
  search text occurs in one of the four searched fields, \<open>kategorie\<close>, \<open>art\<close> and \<open>konto\<close>
  are the selected ones, and \<open>datum\<close> is a date string from \<open>startDatum\<close> on and up to
  \<open>endDatum\<close> (ISO dates are ordered as their strings are).
\<close>

definition passes_filters :: "fin_filter \<Rightarrow> fin_tx \<Rightarrow> bool" where
  "passes_filters flt t =
     ((f_search flt = []
         \<or> list_ex (text_matches (f_search flt))
              [titel t, empfaenger t, detail_beschrieb t, kategorie t])
      \<and> (f_kategorie flt = [] \<or> kategorie t = Some (f_kategorie flt))
      \<and> (f_art flt = [] \<or> art t = Some (f_art flt))
      \<and> (f_konto flt = [] \<or> konto t = Some (f_konto flt))
      \<and> (f_startDatum flt = []
           \<or> (case datum t of None \<Rightarrow> False | Some v \<Rightarrow> f_startDatum flt \<le> v))
      \<and> (f_endDatum flt = []
           \<or> (case datum t of None \<Rightarrow> False | Some v \<Rightarrow> v \<le> f_endDatum flt)))"

text \<open>
  The order of the sort field: numbers for \<open>betrag\<close>, the collation for the text fields,
  where a field that is \<open>null\<close> sorts as the empty text.
\<close>

definition text_or_blank :: "string option \<Rightarrow> string" where
  "text_or_blank v = (case v of None \<Rightarrow> [] | Some s \<Rightarrow> s)"

definition field_le :: "(string \<Rightarrow> string \<Rightarrow> int) \<Rightarrow> sort_field \<Rightarrow> fin_tx \<Rightarrow> fin_tx \<Rightarrow> bool" where
  "field_le collate fld a b =
     (case fld of
        F_datum \<Rightarrow> collate (text_or_blank (datum a)) (text_or_blank (datum b)) \<le> 0
      | F_titel \<Rightarrow> collate (text_or_blank (titel a)) (text_or_blank (titel b)) \<le> 0
      | F_empfaenger \<Rightarrow> collate (text_or_blank (empfaenger a)) (text_or_blank (empfaenger b)) \<le> 0
      | F_detail_beschrieb \<Rightarrow>
          collate (text_or_blank (detail_beschrieb a)) (text_or_blank (detail_beschrieb b)) \<le> 0
      | F_kategorie \<Rightarrow> collate (text_or_blank (kategorie a)) (text_or_blank (kategorie b)) \<le> 0
      | F_art \<Rightarrow> collate (text_or_blank (art a)) (text_or_blank (art b)) \<le> 0
      | F_konto \<Rightarrow> collate (text_or_blank (konto a)) (text_or_blank (konto b)) \<le> 0
      | F_betrag \<Rightarrow> betrag a \<le> betrag b)"

text \<open>Comparison by code units, one collation that \<open>localeCompare\<close> can be.\<close>

definition code_unit_compare :: "string \<Rightarrow> string \<Rightarrow> int" where
  "code_unit_compare a b = (if a < b then -1 else if a = b then 0 else 1)"

text \<open>
  \<open>ToNumber\<close> on the date-filter strings of the worked examples: \<open>"0"\<close> is the number 0,
  and the dates \<open>"2024-01-02"\<close> and \<open>"2024-01-31"\<close> are not numeric literals, so they are
  \<open>NaN\<close>. On these three strings the function is the built-in; it is used on no other.
\<close>

definition ToNumber_examples :: "string \<Rightarrow> js_num" where
  "ToNumber_examples s = (if s = ''0'' then Finite 0 else NaN)"

text \<open>
  A small ledger for the worked examples; the cash withdrawal has no date. The first
  state searches for \<open>B\<close> among the debits of January 2024 and sorts by payee, last
  first; the second has \<open>"0"\<close> as its start date.
\<close>

definition tx_migros :: fin_tx where
  "tx_migros = \<lparr>datum = Some ''2024-01-05'', titel = Some ''Einkauf'', empfaenger = Some ''Migros'',
                 detail_beschrieb = None, kategorie = Some ''Lebensmittel'',
                 art = Some ''Belastung'', konto = Some ''Privat'', betrag = 42\<rparr>"

definition tx_lohn :: fin_tx where
  "tx_lohn = \<lparr>datum = Some ''2024-01-25'', titel = Some ''Lohn'', empfaenger = None,
               detail_beschrieb = None, kategorie = Some ''Einkommen'',
               art = Some ''Gutschrift'', konto = Some ''Privat'', betrag = 5000\<rparr>"

definition tx_sbb :: fin_tx where
  "tx_sbb = \<lparr>datum = Some ''2024-01-09'', titel = Some ''Billett'', empfaenger = Some ''SBB'',
              detail_beschrieb = None, kategorie = Some ''Verkehr'',
              art = Some ''Belastung'', konto = Some ''Privat'', betrag = 80\<rparr>"

definition tx_bargeld :: fin_tx where
  "tx_bargeld = \<lparr>datum = None, titel = Some ''Bargeldbezug'', empfaenger = None,
                  detail_beschrieb = None, kategorie = None,
                  art = Some ''Belastung'', konto = Some ''Privat'', betrag = 200\<rparr>"

definition fin_ledger0 :: "fin_tx list" where
  "fin_ledger0 = [tx_migros, tx_lohn, tx_sbb, tx_bargeld]"

definition fin_state0 :: fin_state where
  "fin_state0 =
     \<lparr>financeTransactions = 0,
      finFilter = \<lparr>f_search = ''B'', f_kategorie = [], f_art = ''Belastung'', f_konto = [],
                   f_startDatum = ''2024-01-02'', f_endDatum = ''2024-01-31''\<rparr>,
      finSort = \<lparr>field = F_empfaenger, dir = ''desc''\<rparr>\<rparr>"

definition fin_state_zero :: fin_state where
  "fin_state_zero =
     \<lparr>financeTransactions = 0,
      finFilter = \<lparr>f_search = [], f_kategorie = [], f_art = [], f_konto = [],
                   f_startDatum = ''0'', f_endDatum = []\<rparr>,
      finSort = \<lparr>field = F_datum, dir = ''desc''\<rparr>\<rparr>"

section \<open>The analytics engine, modelled from the specification\<close>

text \<open>
  The engine that computes the performance figures is not among the source files;
  \<open>app.js\<close> only displays its results. Every definition of this section follows the
  specification's description of the Ledger Projector (4.1) and of the Performance
  Calculator (4.3), and says which sentence it follows.
\<close>

text \<open>Modelled from the spec: the date of a value-history point or of a transaction, missing from the sources; here a day number.\<close>

type_synonym date = int

subsection \<open>Max drawdown\<close>

text \<open>
  Modelled from the spec: the max-drawdown scan of the Performance Calculator, which is
  missing from the sources. The spec: scan the value history for the maximum
  peak-to-trough percentage decline; track the peak date and trough date that produce
  the maximum decline; report it as a positive percentage with its start (peak) and end
  (trough) dates. The record is the state of the scan: the running peak with its date,
  and the largest decline seen so far with its two dates, absent as long as no decline
  was seen.
\<close>

record drawdown_scan =
  peak :: real
  peak_date :: date
  max_drawdown :: real
  max_drawdown_start :: "date option"
  max_drawdown_end :: "date option"

text \<open>
  Modelled from the spec: the drawdown of the glossary, missing from the sources: the
  decline from a peak \<open>p\<close> to a value \<open>v\<close>, expressed as a percentage of the peak.
\<close>

definition decline_pct :: "real \<Rightarrow> real \<Rightarrow> real" where
  "decline_pct p v = (if p > 0 then (p - v) / p * 100 else 0)"

text \<open>Modelled from the spec: the scan before the first point (missing from the sources): no peak, no decline, no dates.\<close>

definition drawdown_init :: drawdown_scan where
  "drawdown_init =
     \<lparr>peak = 0, peak_date = 0, max_drawdown = 0,
      max_drawdown_start = None, max_drawdown_end = None\<rparr>"

text \<open>
  Modelled from the spec: one step of the scan (missing from the sources). A value above
  the running peak is the new peak; a decline from the peak that is larger than the
  largest so far replaces it, with the peak's date as start and the point's date as end.
\<close>

definition drawdown_step :: "drawdown_scan \<Rightarrow> date \<times> real \<Rightarrow> drawdown_scan" where
  "drawdown_step s pt =
     (case pt of (d, v) \<Rightarrow>
        let pk = (if v > peak s then v else peak s);
            pd = (if v > peak s then d else peak_date s);
            dd = decline_pct pk v
        in if dd > max_drawdown s
           then \<lparr>peak = pk, peak_date = pd, max_drawdown = dd,
                 max_drawdown_start = Some pd, max_drawdown_end = Some d\<rparr>
           else s\<lparr>peak := pk, peak_date := pd\<rparr>)"

text \<open>Modelled from the spec: the scan of the whole value history (missing from the sources).\<close>

definition compute_max_drawdown :: "(date \<times> real) list \<Rightarrow> drawdown_scan" where
  "compute_max_drawdown hist = foldl drawdown_step drawdown_init hist"

text \<open>Two value histories for the worked examples: one that only rises, one with two drops.\<close>

definition history_no_decline :: "(date \<times> real) list" where
  "history_no_decline = [(1, 100), (2, 110)]"

definition history_two_drops :: "(date \<times> real) list" where
  "history_two_drops = [(1, 100), (2, 90), (3, 120), (4, 60), (5, 100), (6, 80)]"

subsection \<open>Ledger, cash and value history\<close>

text \<open>
  Modelled from the spec: the transaction taxonomy of the Ledger Projector (section 4.1),
  which is missing from the sources. Each type has a cash effect and is or is not an
  external cash flow, as the table of 4.1 lists them. Amounts are positive magnitudes.
\<close>

datatype tx_type =
  PURCHASE | SALE | INBOUND_DELIVERY | OUTBOUND_DELIVERY | SECURITY_TRANSFER | CASH_TRANSFER
  | DEPOSIT | REMOVAL | DIVIDEND | INTEREST | INTEREST_CHARGE | TAX | FEE | TAX_REFUND
  | FEE_REFUND

text \<open>
  Modelled from the spec: a transaction of the ledger (section 3), missing from the
  sources: its date, type and amount, the account it refers to, and for a cash transfer
  the account the amount arrives on.
\<close>

record ledger_tx =
  l_date :: date
  l_type :: tx_type
  l_amount :: real
  l_account :: nat
  l_target :: nat

text \<open>
  Modelled from the spec: the column "Cash effect" of the table in 4.1, on the account
  the transaction refers to. Amounts are in the base currency.
\<close>

fun cash_effect :: "tx_type \<Rightarrow> real \<Rightarrow> real" where
  "cash_effect PURCHASE a = - a"
| "cash_effect SALE a = a"
| "cash_effect INBOUND_DELIVERY a = 0"
| "cash_effect OUTBOUND_DELIVERY a = 0"
| "cash_effect SECURITY_TRANSFER a = 0"
| "cash_effect CASH_TRANSFER a = - a"
| "cash_effect DEPOSIT a = a"
| "cash_effect REMOVAL a = - a"
| "cash_effect DIVIDEND a = a"
| "cash_effect INTEREST a = a"
| "cash_effect INTEREST_CHARGE a = - a"
| "cash_effect TAX a = - a"
| "cash_effect FEE a = - a"
| "cash_effect TAX_REFUND a = a"
| "cash_effect FEE_REFUND a = a"

text \<open>
  Modelled from the spec: what a transaction does to the balance of account \<open>acc\<close>. A
  cash transfer is an account-to-account move: the amount leaves \<open>l_account\<close> and
  arrives on \<open>l_target\<close>.
\<close>

definition account_effect :: "ledger_tx \<Rightarrow> nat \<Rightarrow> real" where
  "account_effect t acc =
     (if l_account t = acc then cash_effect (l_type t) (l_amount t) else 0)
     + (if l_type t = CASH_TRANSFER \<and> l_target t = acc then l_amount t else 0)"

text \<open>
  Modelled from the spec: the column "External cash flow?" of the table in 4.1, with the
  sign of the contribution: capital comes in with a deposit or an inbound delivery and
  leaves with a removal or an outbound delivery.
\<close>

fun external_flow :: "tx_type \<Rightarrow> real \<Rightarrow> real option" where
  "external_flow DEPOSIT a = Some a"
| "external_flow REMOVAL a = Some (- a)"
| "external_flow INBOUND_DELIVERY a = Some a"
| "external_flow OUTBOUND_DELIVERY a = Some (- a)"
| "external_flow t a = None"

text \<open>
  Modelled from the spec: the balance of an account (section 3, Account), missing from
  the sources: the running sum of its cash-affecting transactions.
\<close>

definition balance :: "ledger_tx list \<Rightarrow> nat \<Rightarrow> date \<Rightarrow> real" where
  "balance ledger acc d =
     sum_list (map (\<lambda>t. account_effect t acc) (filter (\<lambda>t. l_date t \<le> d) ledger))"

text \<open>
  Modelled from the spec: the total portfolio value on a date (section 3, invariants),
  missing from the sources: the sum of the holdings' current values plus all positive
  account balances. The market value of the holdings on each date is a parameter: it
  depends on the prices and on the share-affecting transactions only.
\<close>

definition total_value :: "ledger_tx list \<Rightarrow> (date \<Rightarrow> real) \<Rightarrow> nat list \<Rightarrow> date \<Rightarrow> real" where
  "total_value ledger holdings_value accounts d =
     holdings_value d
     + sum_list (map (\<lambda>acc. balance ledger acc d)
                     (filter (\<lambda>acc. balance ledger acc d > 0) accounts))"

text \<open>
  Modelled from the spec: the value history (section 3, ValueHistoryPoint), missing from
  the sources: one point per valuation date, the date with the total portfolio value.
\<close>

definition value_history ::
  "ledger_tx list \<Rightarrow> (date \<Rightarrow> real) \<Rightarrow> nat list \<Rightarrow> date list \<Rightarrow> (date \<times> real) list" where
  "value_history ledger holdings_value accounts dates =
     map (\<lambda>d. (d, total_value ledger holdings_value accounts d)) dates"

subsection \<open>Time-weighted return\<close>

text \<open>
  Modelled from the spec: the external-cash-flow dates of a ledger (section 4.3: the
  timeline is partitioned into sub-periods at every external-cash-flow date), missing
  from the sources.
\<close>

definition is_flow_date :: "ledger_tx list \<Rightarrow> date \<Rightarrow> bool" where
  "is_flow_date ledger d =
     list_ex (\<lambda>t. l_date t = d \<and> external_flow (l_type t) (l_amount t) \<noteq> None) ledger"

text \<open>
  Modelled from the spec: the cash flow \<open>CF\<close> applied at a sub-period boundary (section
  4.3), missing from the sources: the net external cash flow of the date.
\<close>

definition net_flow :: "ledger_tx list \<Rightarrow> date \<Rightarrow> real" where
  "net_flow ledger d =
     sum_list (map (\<lambda>t. case external_flow (l_type t) (l_amount t) of
                           Some a \<Rightarrow> a | None \<Rightarrow> 0)
                   (filter (\<lambda>t. l_date t = d) ledger))"

text \<open>
  Modelled from the spec: the geometric linking of the sub-period returns (section 4.3),
  missing from the sources. A sub-period runs from one external-cash-flow date to the
  next, and the last one to the end of the history. With starting value \<open>V0\<close>, ending
  value \<open>V1\<close> and cash flow \<open>CF\<close> at the period's end, its return is
  \<open>r = (V1 - CF) / V0 - 1\<close>. \<open>link\<close> is the product of the factors \<open>1 + r\<close> from a
  sub-period's starting value \<open>v0\<close> on; there is no return (\<open>None\<close>) when a sub-period
  starts at value 0.
\<close>

fun link :: "(date \<Rightarrow> bool) \<Rightarrow> (date \<Rightarrow> real) \<Rightarrow> real \<Rightarrow> (date \<times> real) list \<Rightarrow> real option" where
  "link is_flow flow v0 [] = Some 1"
| "link is_flow flow v0 ((d, v) # rest) =
     (if rest = [] \<or> is_flow d
      then (if v0 = 0 then None
            else case link is_flow flow v rest of
                   None \<Rightarrow> None
                 | Some p \<Rightarrow> Some ((v - flow d) / v0 * p))
      else link is_flow flow v0 rest)"

text \<open>
  Modelled from the spec: TTWROR (section 4.3), missing from the sources: the product of
  the \<open>1 + r\<close> over all sub-periods, minus 1, as a percentage.
\<close>

definition TTWROR :: "(date \<times> real) list \<Rightarrow> ledger_tx list \<Rightarrow> real option" where
  "TTWROR hist ledger =
     (case hist of
        [] \<Rightarrow> Some 0
      | (d0, v0) # rest \<Rightarrow>
          (case link (is_flow_date ledger) (net_flow ledger) v0 rest of
             None \<Rightarrow> None
           | Some p \<Rightarrow> Some ((p - 1) * 100)))"

text \<open>A deposit and a removal of amount \<open>x\<close> on date \<open>d\<close>, on account \<open>acc\<close>.\<close>

definition deposit_tx :: "date \<Rightarrow> real \<Rightarrow> nat \<Rightarrow> ledger_tx" where
  "deposit_tx d x acc =
     \<lparr>l_date = d, l_type = DEPOSIT, l_amount = x, l_account = acc, l_target = acc\<rparr>"

definition removal_tx :: "date \<Rightarrow> real \<Rightarrow> nat \<Rightarrow> ledger_tx" where
  "removal_tx d x acc =
     \<lparr>l_date = d, l_type = REMOVAL, l_amount = x, l_account = acc, l_target = acc\<rparr>"

text \<open>A ledger and a market value of the holdings for the worked example.\<close>

definition ledger_one_deposit :: "ledger_tx list" where
  "ledger_one_deposit = [deposit_tx 1 1000 0]"

definition holdings_grow :: "date \<Rightarrow> real" where
  "holdings_grow d = (if d < 30 then 0 else 100)"

text \<open>
  A cash-only ledger whose value falls to 0 on day 2: a deposit of 100 on day 1, a fee of
  100 on day 2 and interest of 50 on day 3, all on account 0, and no holdings.
\<close>

definition fee_day2 :: ledger_tx where
  "fee_day2 = \<lparr>l_date = 2, l_type = FEE, l_amount = 100, l_account = 0, l_target = 0\<rparr>"

definition interest_day3 :: ledger_tx where
  "interest_day3 =
     \<lparr>l_date = 3, l_type = INTEREST, l_amount = 50, l_account = 0, l_target = 0\<rparr>"

definition holdings_none :: "date \<Rightarrow> real" where
  "holdings_none d = 0"

subsection \<open>Volatility\<close>

text \<open>
  Modelled from the spec: the volatility of the Performance Calculator (section 4.3),
  which is missing from the sources. The spec: the standard deviation of the monthly
  return series, annualized by multiplying by the square root of 12, expressed as a
  percentage; it requires at least 2 monthly observations and otherwise reports 0. The
  monthly returns are percentages already (\<open>return_pct\<close>).
\<close>

record monthly_return =
  year :: int
  month :: nat
  return_pct :: real

text \<open>Modelled from the spec: the mean of the monthly return series, missing from the sources.\<close>

definition mean_return :: "real list \<Rightarrow> real" where
  "mean_return rs = sum_list rs / real (length rs)"

text \<open>
  Modelled from the spec: the standard deviation of the monthly return series, missing
  from the sources: the sample standard deviation, the one that needs two observations.
\<close>

definition standard_deviation :: "real list \<Rightarrow> real" where
  "standard_deviation rs =
     sqrt (sum_list (map (\<lambda>r. (r - mean_return rs)\<^sup>2) rs) / real (length rs - 1))"

text \<open>
  Modelled from the spec: the reported volatility, missing from the sources: 0 for fewer
  than 2 monthly returns, otherwise the standard deviation times the square root of 12.
\<close>

definition volatility :: "monthly_return list \<Rightarrow> real" where
  "volatility monthly_returns =
     (if length monthly_returns < 2 then 0
      else standard_deviation (map return_pct monthly_returns) * sqrt 12)"

text \<open>Two monthly returns for the worked example.\<close>

definition two_months :: "monthly_return list" where
  "two_months = [\<lparr>year = 2024, month = 1, return_pct = 1\<rparr>,
                 \<lparr>year = 2024, month = 2, return_pct = 3\<rparr>]"

section \<open>Verified properties of the presentation layer\<close>

subsection \<open>\<open>txLabel\<close>\<close>

lemma txLabel_enumerated:
  "map_of tx_labels t = Some l \<Longrightarrow> txLabel t = PStr l"
  by (auto simp: txLabel_def get_property_def tx_labels_def split: if_splits)

lemma txLabel_fallback:
  "map_of tx_labels t = None \<Longrightarrow> t \<notin> set Object_prototype_keys \<Longrightarrow> txLabel t = PStr t"
  by (simp add: txLabel_def get_property_def)

text \<open>
  C7. The claim is that \<open>txLabel(t)\<close> is the German label for the fifteen transaction
  types and \<open>t\<close> itself for every other string. The lookup \<open>({...})[t]\<close> also finds what
  the object literal inherits from \<open>Object.prototype\<close>: for \<open>t = "constructor"\<close> the
  result is the inherited built-in, which is truthy, so the fallback \<open>|| t\<close> is not
  taken and the result is neither a label nor \<open>t\<close>.
\<close>

theorem txLabel_inherited_key:
  "txLabel ''constructor'' = PInherited ''constructor''
   \<and> txLabel ''constructor'' \<noteq> PStr ''constructor''
   \<and> map_of tx_labels ''constructor'' = None
   \<and> txBadge ''constructor'' = (''badge-other'', PInherited ''constructor'')"
  by (simp add: txLabel_def txBadge_def get_property_def tx_labels_def Object_prototype_keys_def)

subsection \<open>\<open>esc\<close>\<close>

lemma esc_JStr: "esc (JStr s) = concat (map escape_char s)"
  by (simp add: esc_def innerHTML_def set_textContent_def createElement_def)

lemma esc_not_falsy: "\<not> falsy v \<Longrightarrow> esc v = concat (map escape_char (ToString v))"
  by (cases v) (simp_all add: esc_def innerHTML_def set_textContent_def createElement_def)

lemma escape_char_no_angle:
  "CHR ''<'' \<notin> set (escape_char c)" "CHR ''>'' \<notin> set (escape_char c)"
  by (simp_all add: escape_char_def)

lemma esc_no_angle: "CHR ''<'' \<notin> set (esc v) \<and> CHR ''>'' \<notin> set (esc v)"
proof (cases "falsy v")
  case True
  then show ?thesis by (simp add: esc_def)
next
  case False
  then show ?thesis by (simp add: esc_not_falsy escape_char_no_angle)
qed

text \<open>
  C10. A string interpolated through \<open>esc\<close> into \<open>innerHTML\<close> is claimed never to
  introduce new markup. The templates put \<open>esc\<close> inside double-quoted attribute values
  (\<open>value="${esc(s.azure_tenant_id)}"\<close>, app.js 645; likewise 446, 455, 577, 650-681),
  and \<open>esc\<close> returns a double quote unchanged: for the input
  \<open>a" onfocus=alert(1) x=\<close> the attribute value ends at the quote that came from the
  data, after \<open>a\<close>, and what follows it is read as markup of the element.
\<close>

theorem esc_double_quote_ends_attribute:
  "esc (JStr (''a'' @ [dquote] @ '' onfocus=alert(1) x='')) = ''a'' @ [dquote] @ '' onfocus=alert(1) x=''
   \<and> attr_value_double_quoted (esc (JStr (''a'' @ [dquote] @ '' onfocus=alert(1) x='')) @ [dquote]) = ''a''"
  by (simp add: esc_JStr escape_char_def attr_value_double_quoted_def dquote_def)

text \<open>
  What \<open>esc\<close> does guarantee: \<open>esc(s)\<close> is the empty string when \<open>s\<close> is falsy; otherwise it is
  \<open>String(s)\<close> with every \<open>&\<close>, \<open><\<close>, \<open>>\<close> and no-break space replaced by its entity and
  every other character, the quotes included, unchanged. The result contains no \<open><\<close>
  and no \<open>>\<close>, so as element content it is read as one run of text up to the markup
  that follows it in the template.
\<close>

theorem esc_text_content:
  "(falsy v \<longrightarrow> esc v = [])
   \<and> (\<not> falsy v \<longrightarrow> esc v = esc (JStr (ToString v)))
   \<and> esc (JStr s) =
       concat (map (\<lambda>c. if c = CHR ''&'' then ''&amp;'' else if c = CHR ''<'' then ''&lt;''
                         else if c = CHR ''>'' then ''&gt;'' else if c = CHR 0xA0 then ''&nbsp;''
                         else [c]) s)
   \<and> CHR ''<'' \<notin> set (esc v) \<and> CHR ''>'' \<notin> set (esc v)
   \<and> text_run (esc v @ CHR ''<'' # rest) = esc v"
proof -
  have "escape_char = (\<lambda>c. if c = CHR ''&'' then ''&amp;'' else if c = CHR ''<'' then ''&lt;''
                         else if c = CHR ''>'' then ''&gt;'' else if c = CHR 0xA0 then ''&nbsp;''
                         else [c])"
    by (rule ext) (simp add: escape_char_def)
  then have "esc (JStr s) =
       concat (map (\<lambda>c. if c = CHR ''&'' then ''&amp;'' else if c = CHR ''<'' then ''&lt;''
                         else if c = CHR ''>'' then ''&gt;'' else if c = CHR 0xA0 then ''&nbsp;''
                         else [c]) s)"
    by (simp only: esc_JStr)
  moreover have "falsy v \<longrightarrow> esc v = []" by (simp add: esc_def)
  moreover have "\<not> falsy v \<longrightarrow> esc v = esc (JStr (ToString v))"
    by (simp add: esc_not_falsy esc_JStr)
  moreover have "text_run (esc v @ CHR ''<'' # rest) = esc v"
  proof -
    have "\<forall>x \<in> set (esc v). x \<noteq> CHR ''<''" using esc_no_angle [of v] by blast
    then show ?thesis unfolding text_run_def by simp
  qed
  ultimately show ?thesis using esc_no_angle [of v] by blast
qed

theorem esc_text_content_witness:
  "esc JNull = [] \<and> esc (JStr []) = []
   \<and> esc (JBool True) = ''true''
   \<and> esc (JStr ''<b>&'') = ''&lt;b&gt;&amp;''
   \<and> text_run (esc (JStr ''<b>&'') @ ''</td>'') = ''&lt;b&gt;&amp;''"
  using esc_text_content [of JNull "[]" "[]"] esc_text_content [of "JBool True" "''true''" "[]"]
    esc_text_content [of "JStr ''<b>&''" "''<b>&''" "''/td>''"]
  by (simp add: text_run_def)

subsection \<open>The dividend yield\<close>

text \<open>
  C5. The dividend yield divides \<open>d.total\<close> by \<open>c.total_invested\<close> only when
  \<open>c.total_invested > 0\<close>: the cell then shows that quotient times 100, and the one
  division performed has a positive divisor. Otherwise, and so when the invested amount
  is zero, the cell shows the literal 0 and no division is performed at all. In no case
  is a division by zero performed.
\<close>

theorem dividend_yield_guard:
  "(total_invested > 0 \<longrightarrow>
      cell (tabDividenden_rendite fdiv fmul d_total total_invested)
        = Formatted (fmul (fdiv d_total total_invested) 100) 2
      \<and> divisions (tabDividenden_rendite fdiv fmul d_total total_invested)
          = [(d_total, total_invested)])
   \<and> (\<not> total_invested > 0 \<longrightarrow>
        cell (tabDividenden_rendite fdiv fmul d_total total_invested) = Literal_zero
        \<and> divisions (tabDividenden_rendite fdiv fmul d_total total_invested) = [])
   \<and> cell (tabDividenden_rendite fdiv fmul d_total 0) = Literal_zero
   \<and> divisions (tabDividenden_rendite fdiv fmul d_total 0) = []
   \<and> (\<forall>p \<in> set (divisions (tabDividenden_rendite fdiv fmul d_total total_invested)).
         snd p > 0 \<and> snd p \<noteq> 0)"
  by (simp add: tabDividenden_rendite_def)

theorem dividend_yield_guard_witness:
  "(4::real) > 0
   \<and> cell (tabDividenden_rendite exact_divide exact_times 1 4) = Formatted (Finite 25) 2
   \<and> divisions (tabDividenden_rendite exact_divide exact_times 1 4) = [(1, 4)]
   \<and> \<not> (0::real) > 0
   \<and> cell (tabDividenden_rendite exact_divide exact_times 1 0) = Literal_zero
   \<and> divisions (tabDividenden_rendite exact_divide exact_times 1 0) = []"
  using dividend_yield_guard [of 4 exact_divide exact_times 1]
    dividend_yield_guard [of 0 exact_divide exact_times 1]
  by (simp add: exact_divide_def)

subsection \<open>Paging of the transaction table\<close>

lemma js_slice_page: "js_slice xs (int p * 30) ((int p + 1) * 30) = take 30 (drop (30 * p) xs)"
proof -
  let ?n = "length xs"
  have a: "int p * 30 = int (30 * p)" and b: "(int p + 1) * 30 = int (30 * p + 30)"
    by simp_all
  have ma: "min (int (30 * p)) (int ?n) = int (min (30 * p) ?n)"
    and mb: "min (int (30 * p + 30)) (int ?n) = int (min (30 * p + 30) ?n)"
    by (simp_all only: of_nat_min)
  have le: "min (30 * p) ?n \<le> min (30 * p + 30) ?n" by simp
  have len: "nat (int (min (30 * p + 30) ?n) - int (min (30 * p) ?n))
               = min (30 * p + 30) ?n - min (30 * p) ?n"
    using le by (simp only: nat_minus_as_int [symmetric])
  have "js_slice xs (int p * 30) ((int p + 1) * 30)
          = take (min (30 * p + 30) ?n - min (30 * p) ?n) (drop (min (30 * p) ?n) xs)"
    unfolding js_slice_def Let_def a b
    by (simp only: of_nat_less_0_iff if_False ma mb len nat_int)
  also have "\<dots> = take 30 (drop (30 * p) xs)"
    by (cases "30 * p \<le> ?n"; cases "30 * p + 30 \<le> ?n") (simp_all add: min_def)
  finally show ?thesis .
qed

lemma ceil30: "\<lceil>real n / 30\<rceil> = int ((n + 29) div 30)"
proof -
  have "\<lceil>real n / 30\<rceil> = \<lceil>real_of_int (int n) / real_of_int 30\<rceil>" by simp
  also have "\<dots> = - (- int n div 30)" by (rule ceiling_divide_eq_div)
  also have "\<dots> = int ((n + 29) div 30)" by (simp add: zdiv_int)
  finally show ?thesis .
qed

lemma filtered_tab: "filtered (tabTransaktionen f pg all) = tx_flt f all"
  by (simp add: tabTransaktionen_def Let_def)

lemma paged_tab:
  "paged (tabTransaktionen f (int p) all) = take 30 (drop (30 * p) (tx_flt f all))"
  unfolding tabTransaktionen_def Let_def TX_PER_PAGE_def
  by (simp only: tx_table.simps js_slice_page)

lemma totalPages_tab:
  "totalPages (tabTransaktionen f pg all) = int ((length (tx_flt f all) + 29) div 30)"
  unfolding tabTransaktionen_def Let_def TX_PER_PAGE_def
  by (simp only: tx_table.simps of_int_numeral ceil30)


lemma concat_pages: "concat (map (\<lambda>q. take k (drop (k * q) xs)) [0..<m]) = take (k * m) xs"
proof (induction m)
  case 0
  show ?case by simp
next
  case (Suc m)
  have "take (k * Suc m) xs = take (k * m + k) xs" by (simp add: add.commute)
  also have "\<dots> = take (k * m) xs @ take k (drop (k * m) xs)" by (rule take_add)
  finally show ?case using Suc by simp
qed

lemma page_index_unique:
  fixes i n q :: nat
  assumes "i < n"
  shows "(q < (n + 29) div 30 \<and> 30 * q \<le> i \<and> i < 30 * q + min (n - 30 * q) 30) \<longleftrightarrow> q = i div 30"
proof
  assume a: "q < (n + 29) div 30 \<and> 30 * q \<le> i \<and> i < 30 * q + min (n - 30 * q) 30"
  then have "30 * q \<le> i" by simp
  moreover have "min (n - 30 * q) 30 \<le> 30" by simp
  with a have "i < 30 * q + 30" by linarith
  ultimately have "30 * q \<le> i" and "i < 30 * q + 30" by simp_all
  then have "i div 30 = q" by (intro div_nat_eqI) (simp_all add: mult.commute)
  then show "q = i div 30" by simp
next
  assume q: "q = i div 30"
  have l: "30 * (i div 30) \<le> i" by simp
  have u: "i < 30 * (i div 30) + 30" using div_mult_mod_eq [of i 30] mod_less_divisor [of 30 i] by linarith
  have "i + 30 \<le> n + 29" using assms by simp
  then have "(i + 30) div 30 \<le> (n + 29) div 30" by (rule div_le_mono)
  then have t: "i div 30 < (n + 29) div 30" by simp
  have v: "i < 30 * (i div 30) + (n - 30 * (i div 30))" using l assms by linarith
  have "i < 30 * (i div 30) + min (n - 30 * (i div 30)) 30"
  proof (cases "n - 30 * (i div 30) \<le> 30")
    case True
    then have "min (n - 30 * (i div 30)) 30 = n - 30 * (i div 30)" by (rule min_absorb1)
    with v show ?thesis by (simp only:)
  next
    case False
    then have "min (n - 30 * (i div 30)) 30 = 30" by (simp only: min_def if_False)
    with u show ?thesis by (simp only:)
  qed
  with l t show "q < (n + 29) div 30 \<and> 30 * q \<le> i \<and> i < 30 * q + min (n - 30 * q) 30"
    unfolding q by blast
qed

lemma cover: fixes n :: nat shows "n \<le> 30 * ((n + 29) div 30)"
proof -
  have "n + 29 = 30 * ((n + 29) div 30) + (n + 29) mod 30" by simp
  moreover have "(n + 29) mod 30 < 30" by simp
  ultimately show ?thesis by linarith
qed

text \<open>
  C8. For a page number \<open>p\<close>, the rows shown are \<open>filtered.slice(30 * p, 30 * (p + 1))\<close>,
  at most 30 of them; \<open>totalPages\<close> is \<open>ceil(filtered.length / 30)\<close>; the pages
  \<open>0, ..., totalPages - 1\<close> laid end to end are \<open>filtered\<close>; the transaction at index \<open>i\<close>
  of \<open>filtered\<close> is on page \<open>i div 30\<close>, at position \<open>i mod 30\<close>, and on no other page; and
  under a filter other than \<open>"ALL"\<close> every row shown has the selected type.
\<close>

theorem tabTransaktionen_pages:
  "(paged (tabTransaktionen f (int p) all)
      = js_slice (filtered (tabTransaktionen f (int p) all)) (30 * int p) (30 * (int p + 1)))
   \<and> length (paged (tabTransaktionen f (int p) all)) \<le> 30
   \<and> totalPages (tabTransaktionen f (int p) all)
        = \<lceil>real (length (filtered (tabTransaktionen f (int p) all))) / 30\<rceil>
   \<and> concat (map (\<lambda>q. paged (tabTransaktionen f (int q) all))
                 [0..<nat (totalPages (tabTransaktionen f (int p) all))])
        = filtered (tabTransaktionen f (int p) all)
   \<and> (\<forall>i < length (filtered (tabTransaktionen f (int p) all)).
         (\<forall>q. (q < nat (totalPages (tabTransaktionen f (int p) all))
                \<and> 30 * q \<le> i
                \<and> i < 30 * q + length (paged (tabTransaktionen f (int q) all)))
              \<longleftrightarrow> q = i div 30)
         \<and> paged (tabTransaktionen f (int (i div 30)) all) ! (i mod 30)
             = filtered (tabTransaktionen f (int p) all) ! i)
   \<and> (f \<noteq> ''ALL'' \<longrightarrow> (\<forall>t \<in> set (paged (tabTransaktionen f (int p) all)). type t = f))"
proof -
  let ?flt = "tx_flt f all"
  let ?n = "length ?flt"
  note F = filtered_tab and P = paged_tab and T = totalPages_tab
  have c1: "take 30 (drop (30 * p) ?flt) = js_slice ?flt (30 * int p) (30 * (int p + 1))"
    using js_slice_page [of ?flt p] by (simp add: mult.commute)
  have c3: "int ((?n + 29) div 30) = \<lceil>real ?n / 30\<rceil>"
    by (simp only: ceil30)
  have "30 * ((?n + 29) div 30) \<ge> ?n" by (rule cover)
  then have c4: "concat (map (\<lambda>q. take 30 (drop (30 * q) ?flt)) [0..<(?n + 29) div 30]) = ?flt"
    by (simp only: concat_pages take_all)
  have c5: "(q < (?n + 29) div 30 \<and> 30 * q \<le> i \<and> i < 30 * q + length (take 30 (drop (30 * q) ?flt)))
              \<longleftrightarrow> q = i div 30" if "i < ?n" for i q
    using page_index_unique [OF that, of q] by simp
  have c6: "take 30 (drop (30 * (i div 30)) ?flt) ! (i mod 30) = ?flt ! i" if "i < ?n" for i
    using that by simp
  have c7: "type t = f" if "f \<noteq> ''ALL''" and "t \<in> set (take 30 (drop (30 * p) ?flt))" for t
  proof -
    from that(2) have "t \<in> set ?flt" by (meson in_set_takeD in_set_dropD)
    with that(1) show ?thesis by (simp add: tx_flt_def)
  qed
  show ?thesis
    unfolding F T P nat_int
  proof (intro conjI allI impI ballI)
    show "take 30 (drop (30 * p) ?flt) = js_slice ?flt (30 * int p) (30 * (int p + 1))" by (rule c1)
    show "length (take 30 (drop (30 * p) ?flt)) \<le> 30" by simp
    show "int ((?n + 29) div 30) = \<lceil>real ?n / 30\<rceil>" by (rule c3)
    show "concat (map (\<lambda>q. take 30 (drop (30 * q) ?flt)) [0..<(?n + 29) div 30]) = ?flt" by (rule c4)
  next
    fix i q assume "i < ?n"
    then show "(q < (?n + 29) div 30 \<and> 30 * q \<le> i \<and> i < 30 * q + length (take 30 (drop (30 * q) ?flt)))
              \<longleftrightarrow> q = i div 30" by (rule c5)
  next
    fix i assume "i < ?n"
    then show "take 30 (drop (30 * (i div 30)) ?flt) ! (i mod 30) = ?flt ! i" by (rule c6)
  next
    fix t assume "f \<noteq> ''ALL''" "t \<in> set (take 30 (drop (30 * p) ?flt))"
    then show "type t = f" by (rule c7)
  qed
qed

theorem tabTransaktionen_pages_witness:
  "filtered (tabTransaktionen ''SALE'' (int 2) (fee_tx # replicate 61 sale_tx)) = replicate 61 sale_tx
   \<and> paged (tabTransaktionen ''SALE'' (int 2) (fee_tx # replicate 61 sale_tx)) = [sale_tx]
   \<and> totalPages (tabTransaktionen ''SALE'' (int 2) (fee_tx # replicate 61 sale_tx)) = 3
   \<and> (60::nat) < length (filtered (tabTransaktionen ''SALE'' (int 2) (fee_tx # replicate 61 sale_tx)))
   \<and> ''SALE'' \<noteq> ''ALL''
   \<and> type sale_tx = ''SALE''"
proof -
  let ?all = "fee_tx # replicate 61 sale_tx"
  have flt: "tx_flt ''SALE'' ?all = replicate 61 sale_tx"
    by (simp add: tx_flt_def fee_tx_def sale_tx_def)
  have fl: "filtered (tabTransaktionen ''SALE'' (int 2) ?all) = replicate 61 sale_tx"
    by (simp only: filtered_tab flt)
  have pg: "paged (tabTransaktionen ''SALE'' (int 2) ?all) = [sale_tx]"
    by (simp only: paged_tab flt) simp
  have tp: "totalPages (tabTransaktionen ''SALE'' (int 2) ?all) = 3"
    by (simp only: totalPages_tab flt) simp
  have ne: "''SALE'' \<noteq> ''ALL''" by simp
  from tabTransaktionen_pages [of "''SALE''" 2 ?all]
  have "''SALE'' \<noteq> ''ALL'' \<longrightarrow>
          (\<forall>t \<in> set (paged (tabTransaktionen ''SALE'' (int 2) ?all)). type t = ''SALE'')"
    by (elim conjE)
  with ne have "\<forall>t \<in> set (paged (tabTransaktionen ''SALE'' (int 2) ?all)). type t = ''SALE''"
    by (rule rev_mp)
  then have ty: "type sale_tx = ''SALE''" by (simp only: pg list.set ball_simps)
  from fl have ln: "(60::nat) < length (filtered (tabTransaktionen ''SALE'' (int 2) ?all))"
    by simp
  from fl pg tp ln ne ty show ?thesis by (intro conjI)
qed

subsection \<open>\<open>getFilteredFinTx\<close>\<close>

lemma mset_insert_sorted: "mset (insert_sorted cmp x xs) = add_mset x (mset xs)"
  by (induction xs) simp_all

lemma mset_js_sort: "mset (js_sort cmp xs) = mset xs"
  unfolding js_sort_def by (induction xs) (simp_all add: mset_insert_sorted)

lemma set_insert_sorted: "set (insert_sorted cmp x xs) = insert x (set xs)"
  by (induction xs) auto

lemma sorted_insert_sorted:
  assumes total: "\<And>a b. le a b \<or> le b a"
    and trans: "\<And>a b c. le a b \<Longrightarrow> le b c \<Longrightarrow> le a c"
    and cmp: "\<And>a b. (cmp a b \<le> 0) = le a b"
    and "sorted_wrt le xs"
  shows "sorted_wrt le (insert_sorted cmp x xs)"
  using assms(4)
proof (induction xs)
  case Nil
  show ?case by simp
next
  case (Cons y ys)
  show ?case
  proof (cases "le x y")
    case True
    then have "\<forall>z \<in> set ys. le x z" using Cons.prems trans by auto
    with True Cons.prems show ?thesis by (simp add: cmp)
  next
    case False
    then have "le y x" using total by blast
    with False Cons show ?thesis by (auto simp: cmp set_insert_sorted)
  qed
qed

lemma sorted_js_sort:
  assumes "\<And>a b. le a b \<or> le b a"
    and "\<And>a b c. le a b \<Longrightarrow> le b c \<Longrightarrow> le a c"
    and "\<And>a b. (cmp a b \<le> 0) = le a b"
  shows "sorted_wrt le (js_sort cmp xs)"
  unfolding js_sort_def
  by (induction xs) (simp_all add: sorted_insert_sorted [OF assms])

lemma filter_if_step:
  assumes "r < length h" and "take n h = h0" and "n \<le> length h" and "h ! r = xs"
  shows "\<exists>r' h'. filter_if c p (r, h) = (r', h') \<and> r' < length h' \<and> take n h' = h0
           \<and> n \<le> length h' \<and> h' ! r' = filter (\<lambda>t. c \<longrightarrow> p t) xs"
  using assms by (cases c) (simp_all add: filter_if_def array_filter_def)

lemma sort_spread_step:
  assumes "r < length h" and "take n h = h0" and "n \<le> length h" and "h ! r = xs"
  shows "\<exists>r' h'. array_sort cmp (array_spread (r, h)) = (r', h') \<and> n \<le> r' \<and> r' < length h'
           \<and> take n h' = h0 \<and> n \<le> length h' \<and> h' ! r' = js_sort cmp xs"
  using assms by (simp add: array_sort_def array_spread_def)

text \<open>\<open>includes\<close> is the occurrence as a contiguous run.\<close>

lemma take_eq_prefix: "take (length sub) s = sub \<longleftrightarrow> prefix sub s"
  by (metis append_eq_conv_conj prefix_def append_take_drop_id)

lemma str_includes_sublist: "str_includes s sub \<longleftrightarrow> sublist sub s"
proof (induction s)
  case Nil
  show ?case by simp
next
  case (Cons c cs)
  show ?case
    unfolding str_includes.simps Cons.IH take_eq_prefix
    by (simp only: sublist_Cons_right)
qed

text \<open>\<open>toLowerCase\<close> replaces each capital letter of the table by its small letter.\<close>

lemma capital_range_in:
  fixes n :: nat
  assumes "(65 \<le> n \<and> n \<le> 90) \<or> (192 \<le> n \<and> n \<le> 222 \<and> n \<noteq> 215)"
  shows "char_of n \<in> set capital_letters"
proof -
  from assms have "n \<in> set ([65..<91] @ [192..<215] @ [216..<223])"
    by (simp only: set_append set_upt Un_iff atLeastLessThan_iff) arith
  then have "char_of n \<in> char_of ` set ([65..<91] @ [192..<215] @ [216..<223])" by (rule imageI)
  then have "char_of n \<in> set (map char_of ([65..<91] @ [192..<215] @ [216..<223] :: nat list))"
    by (simp only: set_map)
  also have "map char_of ([65..<91] @ [192..<215] @ [216..<223] :: nat list) = capital_letters"
    by (simp add: capital_letters_def upt_rec char_of_eq_iff)
  finally show ?thesis .
qed

lemma capital_letters_range:
  "\<forall>c \<in> set capital_letters.
     (65 \<le> (of_char c :: nat) \<and> (of_char c :: nat) \<le> 90)
     \<or> (192 \<le> (of_char c :: nat) \<and> (of_char c :: nat) \<le> 222 \<and> (of_char c :: nat) \<noteq> 215)"
  by (simp add: capital_letters_def)

lemma eq_char_of_iff: "c = char_of n \<longleftrightarrow> take_bit 8 n = of_char c"
  by (metis char_of_eq_iff)

lemma small_letter_capital:
  "\<forall>c \<in> set capital_letters. small_letter c = char_of (of_char c + 32 :: nat)"
  by (simp add: capital_letters_def small_letter_def small_letters_def eq_char_of_iff)

lemma small_letter_other:
  assumes "c \<notin> set capital_letters"
  shows "small_letter c = c"
proof -
  have "length capital_letters = length small_letters"
    by (simp add: capital_letters_def small_letters_def)
  with assms have "map_of (zip capital_letters small_letters) c = None"
    by simp
  then show ?thesis by (simp add: small_letter_def)
qed

lemma lower_char_small_letter: "lower_char c = small_letter c"
proof (cases "(65 \<le> (of_char c :: nat) \<and> (of_char c :: nat) \<le> 90)
     \<or> (192 \<le> (of_char c :: nat) \<and> (of_char c :: nat) \<le> 222 \<and> (of_char c :: nat) \<noteq> 215)")
  case True
  then have "char_of (of_char c :: nat) \<in> set capital_letters" by (rule capital_range_in)
  then have "c \<in> set capital_letters" by (simp only: char_of_char)
  then have "small_letter c = char_of (of_char c + 32 :: nat)"
    using small_letter_capital by blast
  with True show ?thesis by (simp only: lower_char_def Let_def if_True)
next
  case False
  then have "c \<notin> set capital_letters" using capital_letters_range by blast
  then have "small_letter c = c" by (rule small_letter_other)
  with False show ?thesis by (simp only: lower_char_def Let_def if_False)
qed

lemma toLowerCase_small_letter: "toLowerCase s = map small_letter s"
  unfolding toLowerCase_def by (simp only: lower_char_small_letter [abs_def])

text \<open>Each step of the code against the claim's reading of it.\<close>

lemma field_hit:
  assumes "s \<noteq> []"
  shows "str_includes (toLowerCase (or_empty v)) (toLowerCase s) = text_matches s v"
proof (cases v)
  case None
  with assms show ?thesis
    by (simp add: text_matches_def toLowerCase_small_letter str_includes_sublist)
next
  case (Some w)
  then show ?thesis
    by (simp add: text_matches_def occurs_ignoring_case_def toLowerCase_small_letter
        str_includes_sublist)
qed

lemma search_hit_matches:
  assumes "s \<noteq> []"
  shows "search_hit (toLowerCase s) t
           = list_ex (text_matches s) [titel t, empfaenger t, detail_beschrieb t, kategorie t]"
  by (simp add: search_hit_def field_hit [OF assms])

lemma strict_eq_iff: "strict_eq v s \<longleftrightarrow> v = Some s"
  by (cases v) auto

lemma js_ge_date:
  assumes "to_number s = NaN \<or> v \<noteq> None"
  shows "js_ge to_number v s = (case v of None \<Rightarrow> False | Some w \<Rightarrow> s \<le> w)"
  using assms by (cases v) auto

lemma js_le_date:
  assumes "to_number s = NaN \<or> v \<noteq> None"
  shows "js_le to_number v s = (case v of None \<Rightarrow> False | Some w \<Rightarrow> w \<le> s)"
  using assms by (cases v) auto

lemma getFilteredFinTx_result:
  assumes g: "financeTransactions st < length h"
    and from_date: "f_startDatum (finFilter st) = [] \<or> to_number (f_startDatum (finFilter st)) = NaN
           \<or> (\<forall>t \<in> set (h ! financeTransactions st). datum t \<noteq> None)"
    and to_date: "f_endDatum (finFilter st) = [] \<or> to_number (f_endDatum (finFilter st)) = NaN
           \<or> (\<forall>t \<in> set (h ! financeTransactions st). datum t \<noteq> None)"
  shows "\<exists>r h'. getFilteredFinTx to_number lc st h = (r, h') \<and> length h \<le> r \<and> r < length h'
           \<and> take (length h) h' = h
           \<and> h' ! r = js_sort (fin_compare lc (field (finSort st))
                                  (if dir (finSort st) = ''desc'' then -1 else 1))
                         (filter (passes_filters (finFilter st)) (h ! financeTransactions st))"
proof -
  let ?f = "finFilter st"
  let ?n = "length h"
  let ?xs = "h ! financeTransactions st"
  let ?p1 = "\<lambda>t. f_search ?f \<noteq> [] \<longrightarrow> search_hit (toLowerCase (f_search ?f)) t"
  let ?p2 = "\<lambda>t. f_kategorie ?f \<noteq> [] \<longrightarrow> strict_eq (kategorie t) (f_kategorie ?f)"
  let ?p3 = "\<lambda>t. f_art ?f \<noteq> [] \<longrightarrow> strict_eq (art t) (f_art ?f)"
  let ?p4 = "\<lambda>t. f_konto ?f \<noteq> [] \<longrightarrow> strict_eq (konto t) (f_konto ?f)"
  let ?p5 = "\<lambda>t. f_startDatum ?f \<noteq> [] \<longrightarrow> js_ge to_number (datum t) (f_startDatum ?f)"
  let ?p6 = "\<lambda>t. f_endDatum ?f \<noteq> [] \<longrightarrow> js_le to_number (datum t) (f_endDatum ?f)"
  have t0: "take ?n h = h" and n0: "?n \<le> length h" by simp_all
  from filter_if_step [OF g t0 n0 refl]
  obtain r1 h1 where s1: "filter_if (f_search ?f \<noteq> []) (search_hit (toLowerCase (f_search ?f)))
                             (financeTransactions st, h) = (r1, h1)"
    and b1: "r1 < length h1" "take ?n h1 = h" "?n \<le> length h1" "h1 ! r1 = filter ?p1 ?xs"
    by blast
  from filter_if_step [OF b1(1) b1(2) b1(3) b1(4)]
  obtain r2 h2 where s2: "filter_if (f_kategorie ?f \<noteq> []) (\<lambda>t. strict_eq (kategorie t) (f_kategorie ?f))
                             (r1, h1) = (r2, h2)"
    and b2: "r2 < length h2" "take ?n h2 = h" "?n \<le> length h2" "h2 ! r2 = filter ?p2 (filter ?p1 ?xs)"
    by blast
  from filter_if_step [OF b2(1) b2(2) b2(3) b2(4)]
  obtain r3 h3 where s3: "filter_if (f_art ?f \<noteq> []) (\<lambda>t. strict_eq (art t) (f_art ?f))
                             (r2, h2) = (r3, h3)"
    and b3: "r3 < length h3" "take ?n h3 = h" "?n \<le> length h3"
            "h3 ! r3 = filter ?p3 (filter ?p2 (filter ?p1 ?xs))"
    by blast
  from filter_if_step [OF b3(1) b3(2) b3(3) b3(4)]
  obtain r4 h4 where s4: "filter_if (f_konto ?f \<noteq> []) (\<lambda>t. strict_eq (konto t) (f_konto ?f))
                             (r3, h3) = (r4, h4)"
    and b4: "r4 < length h4" "take ?n h4 = h" "?n \<le> length h4"
            "h4 ! r4 = filter ?p4 (filter ?p3 (filter ?p2 (filter ?p1 ?xs)))"
    by blast
  from filter_if_step [OF b4(1) b4(2) b4(3) b4(4)]
  obtain r5 h5 where s5: "filter_if (f_startDatum ?f \<noteq> [])
                             (\<lambda>t. js_ge to_number (datum t) (f_startDatum ?f)) (r4, h4) = (r5, h5)"
    and b5: "r5 < length h5" "take ?n h5 = h" "?n \<le> length h5"
            "h5 ! r5 = filter ?p5 (filter ?p4 (filter ?p3 (filter ?p2 (filter ?p1 ?xs))))"
    by blast
  from filter_if_step [OF b5(1) b5(2) b5(3) b5(4)]
  obtain r6 h6 where s6: "filter_if (f_endDatum ?f \<noteq> [])
                             (\<lambda>t. js_le to_number (datum t) (f_endDatum ?f)) (r5, h5) = (r6, h6)"
    and b6: "r6 < length h6" "take ?n h6 = h" "?n \<le> length h6"
            "h6 ! r6 = filter ?p6 (filter ?p5 (filter ?p4 (filter ?p3 (filter ?p2 (filter ?p1 ?xs)))))"
    by blast
  have all: "filter ?p6 (filter ?p5 (filter ?p4 (filter ?p3 (filter ?p2 (filter ?p1 ?xs)))))
               = filter (passes_filters ?f) ?xs"
    unfolding filter_filter
  proof (rule filter_cong [OF refl])
    fix t assume t: "t \<in> set ?xs"
    have q1: "?p1 t = (f_search ?f = []
                  \<or> list_ex (text_matches (f_search ?f))
                       [titel t, empfaenger t, detail_beschrieb t, kategorie t])"
      using search_hit_matches [of "f_search ?f" t] by blast
    have q5: "?p5 t = (f_startDatum ?f = []
                  \<or> (case datum t of None \<Rightarrow> False | Some v \<Rightarrow> f_startDatum ?f \<le> v))"
    proof (cases "f_startDatum ?f = []")
      case True
      then show ?thesis by simp
    next
      case False
      with from_date t have "to_number (f_startDatum ?f) = NaN \<or> datum t \<noteq> None" by blast
      then have "js_ge to_number (datum t) (f_startDatum ?f)
                   = (case datum t of None \<Rightarrow> False | Some v \<Rightarrow> f_startDatum ?f \<le> v)"
        by (rule js_ge_date)
      with False show ?thesis by simp
    qed
    have q6: "?p6 t = (f_endDatum ?f = []
                  \<or> (case datum t of None \<Rightarrow> False | Some v \<Rightarrow> v \<le> f_endDatum ?f))"
    proof (cases "f_endDatum ?f = []")
      case True
      then show ?thesis by simp
    next
      case False
      with to_date t have "to_number (f_endDatum ?f) = NaN \<or> datum t \<noteq> None" by blast
      then have "js_le to_number (datum t) (f_endDatum ?f)
                   = (case datum t of None \<Rightarrow> False | Some v \<Rightarrow> v \<le> f_endDatum ?f)"
        by (rule js_le_date)
      with False show ?thesis by simp
    qed
    have q2: "?p2 t = (f_kategorie ?f = [] \<or> kategorie t = Some (f_kategorie ?f))"
      and q3: "?p3 t = (f_art ?f = [] \<or> art t = Some (f_art ?f))"
      and q4: "?p4 t = (f_konto ?f = [] \<or> konto t = Some (f_konto ?f))"
      by (auto simp: strict_eq_iff)
    show "(((((?p1 t \<and> ?p2 t) \<and> ?p3 t) \<and> ?p4 t) \<and> ?p5 t) \<and> ?p6 t) = passes_filters ?f t"
      unfolding q1 q2 q3 q4 q5 q6 passes_filters_def by blast
  qed
  let ?cmp = "fin_compare lc (field (finSort st)) (if dir (finSort st) = ''desc'' then -1 else 1)"
  from sort_spread_step [OF b6(1) b6(2) b6(3) b6(4)]
  obtain r7 h7 where s7: "array_sort ?cmp (array_spread (r6, h6)) = (r7, h7)"
    and b7: "?n \<le> r7" "r7 < length h7" "take ?n h7 = h" "h7 ! r7 = js_sort ?cmp (filter (passes_filters ?f) ?xs)"
    unfolding all by blast
  have "getFilteredFinTx to_number lc st h = (r7, h7)"
    unfolding getFilteredFinTx_def Let_def s1 s2 s3 s4 s5 s6 s7 ..
  with b7 show ?thesis by blast
qed

lemma code_unit_compare_sgn_rule: "sgn (code_unit_compare a b) = - sgn (code_unit_compare b a)"
  by (auto simp: code_unit_compare_def)

lemma code_unit_compare_trans_rule:
  "code_unit_compare a b \<le> 0 \<Longrightarrow> code_unit_compare b c \<le> 0 \<Longrightarrow> code_unit_compare a c \<le> 0"
  by (auto simp: code_unit_compare_def split: if_splits)

lemma code_unit_compare_sgn: "\<forall>a b. sgn (code_unit_compare a b) = - sgn (code_unit_compare b a)"
  by (intro allI) (rule code_unit_compare_sgn_rule)

lemma code_unit_compare_trans:
  "\<forall>a b c. code_unit_compare a b \<le> 0 \<longrightarrow> code_unit_compare b c \<le> 0
             \<longrightarrow> code_unit_compare a c \<le> 0"
  by (intro allI impI) (rule code_unit_compare_trans_rule)

lemma or_empty_text_or_blank: "or_empty v = text_or_blank v"
  by (cases v) (simp_all add: text_or_blank_def)

lemma field_le_code:
  "field_le lc fld a b =
     (if fld = F_betrag then betrag a \<le> betrag b
      else lc (or_empty (text_field fld a)) (or_empty (text_field fld b)) \<le> 0)"
  by (cases fld) (simp_all add: field_le_def or_empty_text_or_blank)

lemma field_le_total:
  assumes "\<forall>a b. sgn (lc a b) = - sgn (lc b a)"
  shows "field_le lc fld a b \<or> field_le lc fld b a"
proof (cases "fld = F_betrag")
  case True
  then show ?thesis by (auto simp: field_le_code)
next
  case False
  let ?x = "lc (or_empty (text_field fld a)) (or_empty (text_field fld b))"
  let ?y = "lc (or_empty (text_field fld b)) (or_empty (text_field fld a))"
  have "sgn ?x = - sgn ?y" by (rule assms [rule_format])
  then have "?x \<le> 0 \<or> ?y \<le> 0" by (cases "?x \<le> 0") (auto simp: sgn_if split: if_splits)
  with False show ?thesis by (simp add: field_le_code)
qed

lemma field_le_trans:
  assumes "\<forall>a b c. lc a b \<le> 0 \<longrightarrow> lc b c \<le> 0 \<longrightarrow> lc a c \<le> 0"
    and "field_le lc fld a b" and "field_le lc fld b c"
  shows "field_le lc fld a c"
proof (cases "fld = F_betrag")
  case True
  with assms(2,3) show ?thesis by (simp add: field_le_code)
next
  case False
  with assms(2,3)
  have "lc (or_empty (text_field fld a)) (or_empty (text_field fld b)) \<le> 0"
    and "lc (or_empty (text_field fld b)) (or_empty (text_field fld c)) \<le> 0"
    by (simp_all add: field_le_code)
  then have "lc (or_empty (text_field fld a)) (or_empty (text_field fld c)) \<le> 0"
    by (rule assms(1) [rule_format])
  with False show ?thesis by (simp add: field_le_code)
qed

lemma fin_compare_asc: "(fin_compare lc fld 1 a b \<le> 0) = field_le lc fld a b"
  by (simp add: fin_compare_def field_le_code)

lemma fin_compare_desc:
  assumes "\<forall>a b. sgn (lc a b) = - sgn (lc b a)"
  shows "(fin_compare lc fld (-1) a b \<le> 0) = field_le lc fld b a"
proof (cases "fld = F_betrag")
  case True
  then show ?thesis by (simp add: fin_compare_def field_le_code)
next
  case False
  let ?x = "lc (or_empty (text_field fld a)) (or_empty (text_field fld b))"
  let ?y = "lc (or_empty (text_field fld b)) (or_empty (text_field fld a))"
  have "sgn ?x = - sgn ?y" by (rule assms [rule_format])
  then have "(0 \<le> ?x) = (?y \<le> 0)" by (auto simp: sgn_if split: if_splits)
  with False show ?thesis by (simp add: fin_compare_def field_le_code)
qed

lemma run_fin_state_zero:
  "getFilteredFinTx ToNumber_examples code_unit_compare fin_state_zero [fin_ledger0]
     = (2, [fin_ledger0, fin_ledger0, [tx_lohn, tx_sbb, tx_migros, tx_bargeld]])"
  by (simp add: getFilteredFinTx_def fin_state_zero_def filter_if_def array_filter_def
      array_spread_def array_sort_def js_sort_def fin_compare_def fin_ledger0_def
      tx_migros_def tx_lohn_def tx_sbb_def tx_bargeld_def ToNumber_examples_def
      code_unit_compare_def)

lemma run_fin_state0:
  "getFilteredFinTx ToNumber_examples code_unit_compare fin_state0 [fin_ledger0]
     = (5, [fin_ledger0, [tx_migros, tx_sbb, tx_bargeld], [tx_migros, tx_sbb, tx_bargeld],
            [tx_migros, tx_sbb], [tx_migros, tx_sbb], [tx_sbb, tx_migros]])"
  by (simp add: getFilteredFinTx_def fin_state0_def filter_if_def array_filter_def
      array_spread_def array_sort_def js_sort_def fin_compare_def fin_ledger0_def
      tx_migros_def tx_lohn_def tx_sbb_def tx_bargeld_def ToNumber_examples_def
      code_unit_compare_def search_hit_def toLowerCase_def lower_char_def
      char_of_eq_iff eq_char_of_iff)

text \<open>
  C9, as stated: for every state, the result holds exactly the transactions whose
  \<open>datum\<close> is within \<open>[startDatum, endDatum]\<close> and in whose searched fields the
  search text is a substring. Two states where it does not. A transaction whose \<open>datum\<close>
  is \<open>null\<close> has no date within any range, but with the start date \<open>"0"\<close> the code
  keeps it: \<open>null >= "0"\<close> compares the numbers 0 and 0 and is true. And the search
  for \<open>B\<close> returns a transaction none of whose searched fields contains \<open>B\<close>: they
  contain \<open>b\<close>, and the code brings both sides to small letters first.
\<close>

theorem getFilteredFinTx_keeps_null_datum_ignores_case:
  "getFilteredFinTx ToNumber_examples code_unit_compare fin_state_zero [fin_ledger0]
     = (2, [fin_ledger0, fin_ledger0, [tx_lohn, tx_sbb, tx_migros, tx_bargeld]])
   \<and> f_startDatum (finFilter fin_state_zero) = ''0''
   \<and> datum tx_bargeld = None
   \<and> \<not> passes_filters (finFilter fin_state_zero) tx_bargeld
   \<and> filter (passes_filters (finFilter fin_state_zero)) fin_ledger0 = [tx_migros, tx_lohn, tx_sbb]
   \<and> getFilteredFinTx ToNumber_examples code_unit_compare fin_state0 [fin_ledger0]
       = (5, [fin_ledger0, [tx_migros, tx_sbb, tx_bargeld], [tx_migros, tx_sbb, tx_bargeld],
              [tx_migros, tx_sbb], [tx_migros, tx_sbb], [tx_sbb, tx_migros]])
   \<and> f_search (finFilter fin_state0) = ''B''
   \<and> titel tx_migros = Some ''Einkauf'' \<and> \<not> sublist ''B'' ''Einkauf''
   \<and> empfaenger tx_migros = Some ''Migros'' \<and> \<not> sublist ''B'' ''Migros''
   \<and> detail_beschrieb tx_migros = None
   \<and> kategorie tx_migros = Some ''Lebensmittel'' \<and> \<not> sublist ''B'' ''Lebensmittel''"
  by (simp add: run_fin_state_zero run_fin_state0)
     (simp add: passes_filters_def fin_state_zero_def fin_state0_def fin_ledger0_def
      tx_migros_def tx_lohn_def tx_sbb_def tx_bargeld_def sublist_Cons_right)

text \<open>
  C9, amended: in every state where each of \<open>startDatum\<close> and \<open>endDatum\<close> is empty or is
  not a numeric string (the date inputs deliver the empty string or a date
  \<open>yyyy-mm-dd\<close>), or no transaction has a \<open>null\<close> \<open>datum\<close>, \<open>getFilteredFinTx\<close> returns a
  new array that holds exactly the transactions of \<open>financeTransactions\<close> passing every
  filter whose string is not empty (each one as often as it occurs): the search text
  occurs, case ignored, in \<open>titel\<close>, \<open>empfaenger\<close>, \<open>detail_beschrieb\<close> or \<open>kategorie\<close>;
  \<open>kategorie\<close>, \<open>art\<close> and \<open>konto\<close> are the selected ones; \<open>datum\<close> is a string from
  \<open>startDatum\<close> on and up to \<open>endDatum\<close>. The array is in the order of the sort field,
  descending when \<open>finSort.dir\<close> is \<open>"desc"\<close> and ascending otherwise; the array
  \<open>financeTransactions\<close> and every other array that existed before the call are
  unchanged. \<open>localeCompare\<close> is taken to be a consistent comparison: its sign flips when
  its arguments are swapped, and it is transitive.
\<close>

theorem getFilteredFinTx_filters_sorts_copy:
  assumes "financeTransactions st < length h"
    and "\<forall>a b. sgn (localeCompare a b) = - sgn (localeCompare b a)"
    and "\<forall>a b c. localeCompare a b \<le> 0 \<longrightarrow> localeCompare b c \<le> 0 \<longrightarrow> localeCompare a c \<le> 0"
    and "f_startDatum (finFilter st) = [] \<or> to_number (f_startDatum (finFilter st)) = NaN
           \<or> (\<forall>t \<in> set (h ! financeTransactions st). datum t \<noteq> None)"
    and "f_endDatum (finFilter st) = [] \<or> to_number (f_endDatum (finFilter st)) = NaN
           \<or> (\<forall>t \<in> set (h ! financeTransactions st). datum t \<noteq> None)"
  shows "case getFilteredFinTx to_number localeCompare st h of (r, h') \<Rightarrow>
           mset (h' ! r) = mset (filter (passes_filters (finFilter st)) (h ! financeTransactions st))
           \<and> sorted_wrt (\<lambda>a b. if dir (finSort st) = ''desc''
                                then field_le localeCompare (field (finSort st)) b a
                                else field_le localeCompare (field (finSort st)) a b) (h' ! r)
           \<and> r \<noteq> financeTransactions st
           \<and> h' ! financeTransactions st = h ! financeTransactions st
           \<and> take (length h) h' = h"
proof -
  let ?g = "financeTransactions st"
  let ?fld = "field (finSort st)"
  let ?d = "if dir (finSort st) = ''desc'' then -1 else 1 :: real"
  let ?ys = "filter (passes_filters (finFilter st)) (h ! ?g)"
  let ?le = "\<lambda>a b. if dir (finSort st) = ''desc'' then field_le localeCompare ?fld b a
                    else field_le localeCompare ?fld a b"
  note sg = assms(2) and tr = assms(3)
  from getFilteredFinTx_result [OF assms(1) assms(4) assms(5), of localeCompare]
  obtain r h' where res: "getFilteredFinTx to_number localeCompare st h = (r, h')"
    and r: "length h \<le> r" "r < length h'" and frame: "take (length h) h' = h"
    and out: "h' ! r = js_sort (fin_compare localeCompare ?fld ?d) ?ys"
    by blast
  have m: "mset (h' ! r) = mset ?ys" by (simp only: out mset_js_sort)
  have s: "sorted_wrt ?le (h' ! r)"
  proof (cases "dir (finSort st) = ''desc''")
    case True
    have "sorted_wrt (\<lambda>a b. field_le localeCompare ?fld b a)
            (js_sort (fin_compare localeCompare ?fld (-1)) ?ys)"
    proof (rule sorted_js_sort)
      show "field_le localeCompare ?fld b a \<or> field_le localeCompare ?fld a b" for a b
        by (rule field_le_total [OF sg])
      show "field_le localeCompare ?fld c a"
        if "field_le localeCompare ?fld b a" "field_le localeCompare ?fld c b" for a b c
        using that(2) that(1) by (rule field_le_trans [OF tr])
      show "(fin_compare localeCompare ?fld (-1) a b \<le> 0) = field_le localeCompare ?fld b a" for a b
        by (rule fin_compare_desc [OF sg])
    qed
    with True show ?thesis by (simp only: out if_True simp_thms)
  next
    case False
    have "sorted_wrt (\<lambda>a b. field_le localeCompare ?fld a b)
            (js_sort (fin_compare localeCompare ?fld 1) ?ys)"
    proof (rule sorted_js_sort)
      show "field_le localeCompare ?fld a b \<or> field_le localeCompare ?fld b a" for a b
        by (rule field_le_total [OF sg])
      show "field_le localeCompare ?fld a c"
        if "field_le localeCompare ?fld a b" "field_le localeCompare ?fld b c" for a b c
        using that by (rule field_le_trans [OF tr])
      show "(fin_compare localeCompare ?fld 1 a b \<le> 0) = field_le localeCompare ?fld a b" for a b
        by (rule fin_compare_asc)
    qed
    with False show ?thesis by (simp only: out if_False simp_thms)
  qed
  have ne: "r \<noteq> ?g" using r(1) assms(1) by linarith
  have "h' ! ?g = take (length h) h' ! ?g" using assms(1) by simp
  then have same: "h' ! ?g = h ! ?g" by (simp only: frame)
  show ?thesis
    unfolding res prod.case
    using m s ne same frame by (intro conjI)
qed

theorem getFilteredFinTx_filters_sorts_copy_witness:
  "financeTransactions fin_state0 < length [fin_ledger0]
   \<and> ToNumber_examples (f_startDatum (finFilter fin_state0)) = NaN
   \<and> ToNumber_examples (f_endDatum (finFilter fin_state0)) = NaN
   \<and> getFilteredFinTx ToNumber_examples code_unit_compare fin_state0 [fin_ledger0]
       = (5, [fin_ledger0, [tx_migros, tx_sbb, tx_bargeld], [tx_migros, tx_sbb, tx_bargeld],
              [tx_migros, tx_sbb], [tx_migros, tx_sbb], [tx_sbb, tx_migros]])
   \<and> filter (passes_filters (finFilter fin_state0)) fin_ledger0 = [tx_migros, tx_sbb]
   \<and> field_le code_unit_compare F_empfaenger tx_migros tx_sbb"
proof -
  let ?out = "[fin_ledger0, [tx_migros, tx_sbb, tx_bargeld], [tx_migros, tx_sbb, tx_bargeld],
               [tx_migros, tx_sbb], [tx_migros, tx_sbb], [tx_sbb, tx_migros]]"
  have g: "financeTransactions fin_state0 < length [fin_ledger0]"
    by (simp add: fin_state0_def)
  have n1: "ToNumber_examples (f_startDatum (finFilter fin_state0)) = NaN"
    and n2: "ToNumber_examples (f_endDatum (finFilter fin_state0)) = NaN"
    by (simp_all add: fin_state0_def ToNumber_examples_def)
  have run: "getFilteredFinTx ToNumber_examples code_unit_compare fin_state0 [fin_ledger0] = (5, ?out)"
    by (rule run_fin_state0)
  have flt: "filter (passes_filters (finFilter fin_state0)) fin_ledger0 = [tx_migros, tx_sbb]"
    by (simp add: passes_filters_def fin_state0_def fin_ledger0_def
        tx_migros_def tx_lohn_def tx_sbb_def tx_bargeld_def text_matches_def
        occurs_ignoring_case_def small_letter_def capital_letters_def small_letters_def
        sublist_Cons_right)
  note T = getFilteredFinTx_filters_sorts_copy
         [where localeCompare = code_unit_compare and to_number = ToNumber_examples,
          OF g code_unit_compare_sgn code_unit_compare_trans disjI2 [OF disjI1 [OF n1]]
             disjI2 [OF disjI1 [OF n2]],
          unfolded run prod.case]
  have d: "dir (finSort fin_state0) = ''desc''" and f: "field (finSort fin_state0) = F_empfaenger"
    by (simp_all add: fin_state0_def)
  have n: "?out ! 5 = [tx_sbb, tx_migros]"
    by simp
  from T have "sorted_wrt (\<lambda>a b. if dir (finSort fin_state0) = ''desc''
                                 then field_le code_unit_compare (field (finSort fin_state0)) b a
                                 else field_le code_unit_compare (field (finSort fin_state0)) a b)
                  (?out ! 5)"
    by (rule conjunct1 [OF conjunct2])
  then have "sorted_wrt (\<lambda>a b. field_le code_unit_compare F_empfaenger b a) [tx_sbb, tx_migros]"
    by (simp only: d f n if_True simp_thms)
  then have "field_le code_unit_compare F_empfaenger tx_migros tx_sbb" by simp
  with g n1 n2 run flt show ?thesis by (intro conjI)
qed

section \<open>Properties of the modelled analytics engine\<close>

subsection \<open>Max drawdown\<close>

lemma compute_max_drawdown_Nil: "compute_max_drawdown [] = drawdown_init"
  by (simp add: compute_max_drawdown_def)

lemma compute_max_drawdown_snoc:
  "compute_max_drawdown (h @ [x]) = drawdown_step (compute_max_drawdown h) x"
  by (simp add: compute_max_drawdown_def)

lemma step_peak: "peak (drawdown_step s (d, v)) = max (peak s) v"
  by (simp add: drawdown_step_def Let_def max_def)

lemma step_peak_date:
  "peak_date (drawdown_step s (d, v)) = (if v > peak s then d else peak_date s)"
  by (simp add: drawdown_step_def Let_def)

lemma step_max_drawdown:
  "max_drawdown (drawdown_step s (d, v))
     = max (max_drawdown s) (decline_pct (max (peak s) v) v)"
  by (simp add: drawdown_step_def Let_def max_def)

lemma step_start:
  "max_drawdown_start (drawdown_step s (d, v))
     = (if decline_pct (max (peak s) v) v > max_drawdown s
        then Some (if v > peak s then d else peak_date s) else max_drawdown_start s)"
  by (simp add: drawdown_step_def Let_def max_def)

lemma step_end:
  "max_drawdown_end (drawdown_step s (d, v))
     = (if decline_pct (max (peak s) v) v > max_drawdown s
        then Some d else max_drawdown_end s)"
  by (simp add: drawdown_step_def Let_def max_def)

lemma decline_pct_self: "decline_pct v v = 0"
  by (simp add: decline_pct_def)

lemma decline_pct_nonneg: "v \<le> p \<Longrightarrow> 0 \<le> decline_pct p v"
  by (simp add: decline_pct_def)

lemma decline_pct_mono:
  assumes "0 \<le> v" and "v \<le> p" and "a \<le> p"
  shows "decline_pct a v \<le> decline_pct p v"
proof (cases "0 < a")
  case False
  then have "decline_pct a v = 0" by (simp add: decline_pct_def)
  with assms(2) show ?thesis by (simp add: decline_pct_nonneg)
next
  case True
  with assms(3) have p: "0 < p" by simp
  have "v * a \<le> v * p" using assms(1,3) by (rule mult_left_mono [rotated])
  then have "(a - v) * p \<le> (p - v) * a" by (simp add: algebra_simps)
  then have "(a - v) / a \<le> (p - v) / p" using True p by (simp add: field_simps)
  then have "(a - v) / a * 100 \<le> (p - v) / p * 100" by (rule mult_right_mono) simp
  with True p show ?thesis by (simp only: decline_pct_def if_True)
qed


lemma peak_invariant:
  assumes "\<forall>p \<in> set h. 0 \<le> snd p"
  shows "0 \<le> peak (compute_max_drawdown h)
         \<and> (\<forall>p \<in> set h. snd p \<le> peak (compute_max_drawdown h))
         \<and> (0 < peak (compute_max_drawdown h) \<longrightarrow>
              (\<exists>i < length h. h ! i = (peak_date (compute_max_drawdown h),
                                         peak (compute_max_drawdown h))))"
  using assms
proof (induction h rule: rev_induct)
  case Nil
  show ?case by (simp add: compute_max_drawdown_Nil drawdown_init_def)
next
  case (snoc x h)
  obtain d v where x: "x = (d, v)" by (cases x)
  let ?s = "compute_max_drawdown h"
  from snoc have ih: "0 \<le> peak ?s" "\<forall>p \<in> set h. snd p \<le> peak ?s"
    "0 < peak ?s \<longrightarrow> (\<exists>i < length h. h ! i = (peak_date ?s, peak ?s))"
    by simp_all
  have a: "0 \<le> max (peak ?s) v" using ih(1) by simp
  have b: "\<forall>p \<in> set (h @ [x]). snd p \<le> max (peak ?s) v"
    using ih(2) x by auto
  have c: "\<exists>i < length (h @ [x]). (h @ [x]) ! i
             = (if v > peak ?s then d else peak_date ?s, max (peak ?s) v)"
    if "0 < max (peak ?s) v"
  proof (cases "v > peak ?s")
    case True
    then have "(h @ [x]) ! length h = (if v > peak ?s then d else peak_date ?s, max (peak ?s) v)"
      using x by simp
    then show ?thesis by (intro exI [of _ "length h"]) simp
  next
    case False
    with that have "0 < peak ?s" by simp
    with ih(3) obtain i where i: "i < length h" "h ! i = (peak_date ?s, peak ?s)" by blast
    with False have "(h @ [x]) ! i = (if v > peak ?s then d else peak_date ?s, max (peak ?s) v)"
      by (simp add: nth_append)
    with i(1) show ?thesis by (intro exI [of _ i]) simp
  qed
  show ?case
    unfolding compute_max_drawdown_snoc x step_peak step_peak_date
    using a b c unfolding x by blast
qed

lemma max_drawdown_nonneg: "0 \<le> max_drawdown (compute_max_drawdown h)"
proof (induction h rule: rev_induct)
  case Nil
  show ?case by (simp add: compute_max_drawdown_Nil drawdown_init_def)
next
  case (snoc x h)
  then show ?case
    by (cases x) (simp add: compute_max_drawdown_snoc step_max_drawdown)
qed


lemma max_drawdown_upper:
  assumes "\<forall>p \<in> set h. 0 \<le> snd p" and "i \<le> j" and "j < length h"
  shows "decline_pct (snd (h ! i)) (snd (h ! j)) \<le> max_drawdown (compute_max_drawdown h)"
  using assms
proof (induction h arbitrary: i j rule: rev_induct)
  case Nil
  then show ?case by simp
next
  case (snoc x h)
  obtain d v where x: "x = (d, v)" by (cases x)
  let ?s = "compute_max_drawdown h"
  from snoc.prems(1) have nn: "\<forall>p \<in> set h. 0 \<le> snd p" and v: "0 \<le> v"
    using x by simp_all
  have new: "max_drawdown (compute_max_drawdown (h @ [x]))
               = max (max_drawdown ?s) (decline_pct (max (peak ?s) v) v)"
    by (simp only: compute_max_drawdown_snoc x step_max_drawdown)
  show ?case
  proof (cases "j < length h")
    case True
    with snoc.prems(2) have "(h @ [x]) ! i = h ! i" "(h @ [x]) ! j = h ! j"
      by (simp_all add: nth_append)
    moreover have "decline_pct (snd (h ! i)) (snd (h ! j)) \<le> max_drawdown ?s"
      using nn snoc.prems(2) True by (rule snoc.IH)
    ultimately show ?thesis unfolding new by simp
  next
    case False
    with snoc.prems(3) have j: "j = length h" by simp
    then have vj: "snd ((h @ [x]) ! j) = v" using x by simp
    have "snd ((h @ [x]) ! i) \<le> max (peak ?s) v"
    proof (cases "i < length h")
      case True
      then have "h ! i \<in> set h" by simp
      with peak_invariant [OF nn] have "snd (h ! i) \<le> peak ?s" by blast
      with True show ?thesis by (simp add: nth_append)
    next
      case False
      with snoc.prems(2) j have "i = length h" by simp
      then show ?thesis using x by simp
    qed
    with v have "decline_pct (snd ((h @ [x]) ! i)) v \<le> decline_pct (max (peak ?s) v) v"
      by (intro decline_pct_mono) simp_all
    then show ?thesis unfolding new vj by simp
  qed
qed

lemma max_drawdown_attained:
  assumes "\<forall>p \<in> set h. 0 \<le> snd p" and "0 < max_drawdown (compute_max_drawdown h)"
  shows "\<exists>i j. i < j \<and> j < length h
           \<and> max_drawdown_start (compute_max_drawdown h) = Some (fst (h ! i))
           \<and> max_drawdown_end (compute_max_drawdown h) = Some (fst (h ! j))
           \<and> max_drawdown (compute_max_drawdown h) = decline_pct (snd (h ! i)) (snd (h ! j))"
  using assms
proof (induction h rule: rev_induct)
  case Nil
  then show ?case by (simp add: compute_max_drawdown_Nil drawdown_init_def)
next
  case (snoc x h)
  obtain d v where x: "x = (d, v)" by (cases x)
  let ?s = "compute_max_drawdown h"
  let ?s' = "compute_max_drawdown (h @ [x])"
  from snoc.prems(1) have nn: "\<forall>p \<in> set h. 0 \<le> snd p" by simp
  let ?dd = "decline_pct (max (peak ?s) v) v"
  show ?case
  proof (cases "?dd > max_drawdown ?s")
    case True
    have pos: "0 < ?dd" using True max_drawdown_nonneg [of h] by linarith
    have le: "v \<le> peak ?s"
    proof (rule ccontr)
      assume "\<not> v \<le> peak ?s"
      then have "max (peak ?s) v = v" by simp
      with pos show False by (simp add: decline_pct_self)
    qed
    then have mx: "max (peak ?s) v = peak ?s" by simp
    have "0 < peak ?s" using pos unfolding mx by (simp add: decline_pct_def split: if_splits)
    with peak_invariant [OF nn] obtain i where i: "i < length h" "h ! i = (peak_date ?s, peak ?s)"
      by blast
    have st: "max_drawdown_start ?s' = Some (peak_date ?s)"
      using True le by (simp add: compute_max_drawdown_snoc x step_start)
    have en: "max_drawdown_end ?s' = Some d"
      using True by (simp add: compute_max_drawdown_snoc x step_end)
    have md: "max_drawdown ?s' = decline_pct (peak ?s) v"
      using True by (simp add: compute_max_drawdown_snoc x step_max_drawdown mx)
    have "i < length h \<and> length h < length (h @ [x])
           \<and> max_drawdown_start ?s' = Some (fst ((h @ [x]) ! i))
           \<and> max_drawdown_end ?s' = Some (fst ((h @ [x]) ! length h))
           \<and> max_drawdown ?s' = decline_pct (snd ((h @ [x]) ! i)) (snd ((h @ [x]) ! length h))"
      using i st en md x by (simp add: nth_append)
    then show ?thesis by blast
  next
    case False
    then have same: "max_drawdown ?s' = max_drawdown ?s"
      "max_drawdown_start ?s' = max_drawdown_start ?s"
      "max_drawdown_end ?s' = max_drawdown_end ?s"
      by (simp_all add: compute_max_drawdown_snoc x step_max_drawdown step_start step_end)
    with snoc.prems(2) have "0 < max_drawdown ?s" by simp
    with nn snoc.IH obtain i j where ij: "i < j" "j < length h"
      "max_drawdown_start ?s = Some (fst (h ! i))"
      "max_drawdown_end ?s = Some (fst (h ! j))"
      "max_drawdown ?s = decline_pct (snd (h ! i)) (snd (h ! j))"
      by blast
    then have "i < j \<and> j < length (h @ [x])
           \<and> max_drawdown_start ?s' = Some (fst ((h @ [x]) ! i))
           \<and> max_drawdown_end ?s' = Some (fst ((h @ [x]) ! j))
           \<and> max_drawdown ?s' = decline_pct (snd ((h @ [x]) ! i)) (snd ((h @ [x]) ! j))"
      unfolding same by (simp add: nth_append)
    then show ?thesis by blast
  qed
qed

lemma max_drawdown_zero_no_dates:
  assumes "max_drawdown (compute_max_drawdown h) = 0"
  shows "max_drawdown_start (compute_max_drawdown h) = None
         \<and> max_drawdown_end (compute_max_drawdown h) = None"
  using assms
proof (induction h rule: rev_induct)
  case Nil
  show ?case by (simp add: compute_max_drawdown_Nil drawdown_init_def)
next
  case (snoc x h)
  obtain d v where x: "x = (d, v)" by (cases x)
  let ?s = "compute_max_drawdown h"
  let ?dd = "decline_pct (max (peak ?s) v) v"
  from snoc.prems have m: "max (max_drawdown ?s) ?dd = 0"
    by (simp only: compute_max_drawdown_snoc x step_max_drawdown)
  have "0 \<le> max_drawdown ?s" by (rule max_drawdown_nonneg)
  with m have z: "max_drawdown ?s = 0" and le: "\<not> ?dd > max_drawdown ?s"
    by (simp_all add: max_def split: if_splits)
  from snoc.IH [OF z] le show ?case
    by (simp add: compute_max_drawdown_snoc x step_start step_end)
qed

lemma compute_history_no_decline:
  "compute_max_drawdown history_no_decline
     = \<lparr>peak = 110, peak_date = 2, max_drawdown = 0,
        max_drawdown_start = None, max_drawdown_end = None\<rparr>"
  by (simp add: history_no_decline_def compute_max_drawdown_def drawdown_init_def
      drawdown_step_def decline_pct_def Let_def)

lemma compute_history_two_drops:
  "compute_max_drawdown history_two_drops
     = \<lparr>peak = 120, peak_date = 3, max_drawdown = 50,
        max_drawdown_start = Some 3, max_drawdown_end = Some 4\<rparr>"
  by (simp add: history_two_drops_def compute_max_drawdown_def drawdown_init_def
      drawdown_step_def decline_pct_def Let_def)

text \<open>
  C3, as stated: for every value history the start date of the max drawdown strictly
  precedes its end date. A history that never declines has max drawdown 0 and no peak
  and trough that produce it, so there is no start date and no end date.
\<close>

theorem max_drawdown_no_decline_no_dates:
  "max_drawdown (compute_max_drawdown history_no_decline) = 0
   \<and> max_drawdown_start (compute_max_drawdown history_no_decline) = None
   \<and> max_drawdown_end (compute_max_drawdown history_no_decline) = None"
  by (simp add: compute_history_no_decline)

text \<open>
  C3, amended: for every value history with strictly increasing dates and non-negative
  values, the max drawdown is at least 0; no decline from a value to a later value,
  as a percentage of the earlier one, exceeds it; when it is positive, it is the decline
  from the value at the reported start date to the value at the reported end date, and
  the start date strictly precedes the end date; when it is 0, no dates are reported.
\<close>

theorem max_drawdown_global_maximum:
  assumes "sorted_wrt (<) (map fst h)" and "\<forall>p \<in> set h. 0 \<le> snd p"
  shows "0 \<le> max_drawdown (compute_max_drawdown h)
    \<and> (\<forall>i j. i \<le> j \<and> j < length h \<longrightarrow>
          decline_pct (snd (h ! i)) (snd (h ! j)) \<le> max_drawdown (compute_max_drawdown h))
    \<and> (0 < max_drawdown (compute_max_drawdown h) \<longrightarrow>
          (\<exists>i j. i < j \<and> j < length h
             \<and> max_drawdown_start (compute_max_drawdown h) = Some (fst (h ! i))
             \<and> max_drawdown_end (compute_max_drawdown h) = Some (fst (h ! j))
             \<and> fst (h ! i) < fst (h ! j)
             \<and> max_drawdown (compute_max_drawdown h)
                 = decline_pct (snd (h ! i)) (snd (h ! j))))
    \<and> (max_drawdown (compute_max_drawdown h) = 0 \<longrightarrow>
          max_drawdown_start (compute_max_drawdown h) = None
          \<and> max_drawdown_end (compute_max_drawdown h) = None)"
proof (intro conjI allI impI)
  show "0 \<le> max_drawdown (compute_max_drawdown h)" by (rule max_drawdown_nonneg)
next
  fix i j assume "i \<le> j \<and> j < length h"
  then show "decline_pct (snd (h ! i)) (snd (h ! j)) \<le> max_drawdown (compute_max_drawdown h)"
    using max_drawdown_upper [OF assms(2), of i j] by simp
next
  assume "0 < max_drawdown (compute_max_drawdown h)"
  from max_drawdown_attained [OF assms(2) this]
  obtain i j where ij: "i < j" "j < length h"
    "max_drawdown_start (compute_max_drawdown h) = Some (fst (h ! i))"
    "max_drawdown_end (compute_max_drawdown h) = Some (fst (h ! j))"
    "max_drawdown (compute_max_drawdown h) = decline_pct (snd (h ! i)) (snd (h ! j))"
    by blast
  from assms(1) ij(1,2) have "map fst h ! i < map fst h ! j"
    by (intro sorted_wrt_nth_less) simp_all
  with ij(1,2) have "fst (h ! i) < fst (h ! j)" by simp
  with ij show "\<exists>i j. i < j \<and> j < length h
             \<and> max_drawdown_start (compute_max_drawdown h) = Some (fst (h ! i))
             \<and> max_drawdown_end (compute_max_drawdown h) = Some (fst (h ! j))
             \<and> fst (h ! i) < fst (h ! j)
             \<and> max_drawdown (compute_max_drawdown h)
                 = decline_pct (snd (h ! i)) (snd (h ! j))"
    by blast
next
  assume z: "max_drawdown (compute_max_drawdown h) = 0"
  from max_drawdown_zero_no_dates [OF z]
  show "max_drawdown_start (compute_max_drawdown h) = None" by simp
  from max_drawdown_zero_no_dates [OF z]
  show "max_drawdown_end (compute_max_drawdown h) = None" by simp
qed

theorem max_drawdown_global_maximum_witness:
  "sorted_wrt (<) (map fst history_two_drops)
   \<and> list_all (\<lambda>p. 0 \<le> snd p) history_two_drops
   \<and> max_drawdown (compute_max_drawdown history_two_drops) = 50
   \<and> max_drawdown_start (compute_max_drawdown history_two_drops) = Some 3
   \<and> max_drawdown_end (compute_max_drawdown history_two_drops) = Some 4
   \<and> decline_pct (snd (history_two_drops ! 0)) (snd (history_two_drops ! 1)) \<le> 50
   \<and> decline_pct 120 60 = 50"
proof -
  have s: "sorted_wrt (<) (map fst history_two_drops)"
    by (simp add: history_two_drops_def)
  have n: "\<forall>p \<in> set history_two_drops. 0 \<le> snd p"
    by (simp add: history_two_drops_def)
  have l: "(1::nat) < length history_two_drops" by (simp add: history_two_drops_def)
  from max_drawdown_global_maximum [OF s n]
  have "\<forall>i j. i \<le> j \<and> j < length history_two_drops \<longrightarrow>
          decline_pct (snd (history_two_drops ! i)) (snd (history_two_drops ! j))
            \<le> max_drawdown (compute_max_drawdown history_two_drops)"
    by (elim conjE)
  with l have "decline_pct (snd (history_two_drops ! 0)) (snd (history_two_drops ! 1))
                 \<le> max_drawdown (compute_max_drawdown history_two_drops)"
    by simp
  then have u: "decline_pct (snd (history_two_drops ! 0)) (snd (history_two_drops ! 1)) \<le> 50"
    by (simp only: compute_history_two_drops drawdown_scan.simps)
  have d: "decline_pct 120 60 = 50" by (simp add: decline_pct_def)
  from s n u d show ?thesis
    by (simp add: compute_history_two_drops list_all_iff)
qed

subsection \<open>Time-weighted return\<close>

lemma link_zero_start: "rest \<noteq> [] \<Longrightarrow> link f c 0 rest = None"
proof (induction rest)
  case Nil
  then show ?case by simp
next
  case (Cons p rest)
  obtain d v where p: "p = (d, v)" by (cases p)
  show ?case
  proof (cases "rest = [] \<or> f d")
    case True
    then show ?thesis unfolding p by simp
  next
    case False
    then have "rest \<noteq> []" by simp
    with Cons.IH False show ?thesis unfolding p by simp
  qed
qed

lemma link_rescale:
  assumes "rest \<noteq> []" and "v \<noteq> 0" and "v0 \<noteq> 0"
  shows "link f c v0 rest
           = (case link f c v rest of None \<Rightarrow> None | Some q \<Rightarrow> Some (v / v0 * q))"
  using assms(1)
proof (induction rest)
  case Nil
  then show ?case by simp
next
  case (Cons p rest)
  obtain d w where p: "p = (d, w)" by (cases p)
  show ?case
  proof (cases "rest = [] \<or> f d")
    case True
    have "(w - c d) / v0 * q = v / v0 * ((w - c d) / v * q)" for q
      using assms(2) by simp
    with True assms(2,3) show ?thesis
      unfolding p by (simp split: option.splits)
  next
    case False
    then have "rest \<noteq> []" by simp
    with Cons.IH False show ?thesis unfolding p by simp
  qed
qed

lemma link_extra_boundary:
  assumes f': "\<And>d. f' d = (f d \<or> d = d0)"
    and c0: "\<not> f d0 \<Longrightarrow> c d0 = 0"
    and nz: "\<forall>p \<in> set h. fst p = d0 \<longrightarrow> snd p \<noteq> 0"
  shows "link f' c v0 h = link f c v0 h"
  using nz
proof (induction h arbitrary: v0)
  case Nil
  show ?case by simp
next
  case (Cons p rest)
  obtain d v where p: "p = (d, v)" by (cases p)
  from Cons.prems have nz': "\<forall>p \<in> set rest. fst p = d0 \<longrightarrow> snd p \<noteq> 0" by simp
  note ih = Cons.IH [OF nz']
  show ?case
  proof (cases "rest = [] \<or> f d")
    case True
    then have "rest = [] \<or> f' d" using f' by blast
    with True show ?thesis unfolding p by (simp add: ih)
  next
    case False
    then have rest: "rest \<noteq> []" and nf: "\<not> f d" by simp_all
    show ?thesis
    proof (cases "d = d0")
      case True
      then have v: "v \<noteq> 0" using Cons.prems p by simp
      have cd: "c d = 0" using nf True c0 by simp
      have fd: "f' d" using True f' by simp
      have lhs: "link f' c v0 (p # rest)
                   = (if v0 = 0 then None
                      else case link f c v rest of None \<Rightarrow> None | Some q \<Rightarrow> Some (v / v0 * q))"
        unfolding p using fd cd by (simp add: ih split: option.splits)
      have rhs: "link f c v0 (p # rest) = link f c v0 rest"
        unfolding p using False by simp
      show ?thesis
      proof (cases "v0 = 0")
        case True
        with lhs rhs link_zero_start [OF rest] show ?thesis by simp
      next
        case False
        with lhs rhs link_rescale [OF rest v False] show ?thesis by simp
      qed
    next
      case False
      then have "\<not> f' d" using nf f' by simp
      with rest nf show ?thesis unfolding p by (simp add: ih)
    qed
  qed
qed

lemma balance_insert:
  "balance (pre @ deposit_tx d x a # removal_tx d x a # post) acc e = balance (pre @ post) acc e"
  by (simp add: balance_def account_effect_def deposit_tx_def removal_tx_def)

lemma value_history_insert:
  "value_history (pre @ deposit_tx d x a # removal_tx d x a # post) hv accounts dates
     = value_history (pre @ post) hv accounts dates"
  by (simp add: value_history_def total_value_def balance_insert)

lemma net_flow_insert:
  "net_flow (pre @ deposit_tx d x a # removal_tx d x a # post) e = net_flow (pre @ post) e"
  by (simp add: net_flow_def deposit_tx_def removal_tx_def)

lemma is_flow_date_insert:
  "is_flow_date (pre @ deposit_tx d x a # removal_tx d x a # post) e
     = (is_flow_date (pre @ post) e \<or> e = d)"
  by (auto simp: is_flow_date_def deposit_tx_def removal_tx_def list_ex_iff)

lemma net_flow_no_flow_date:
  assumes "\<not> is_flow_date ledger d"
  shows "net_flow ledger d = 0"
proof -
  have "\<forall>t \<in> set (filter (\<lambda>t. l_date t = d) ledger).
          (case external_flow (l_type t) (l_amount t) of Some a \<Rightarrow> a | None \<Rightarrow> 0) = 0"
    using assms by (auto simp: is_flow_date_def list_ex_iff split: option.splits)
  then have eq: "map (\<lambda>t. case external_flow (l_type t) (l_amount t) of Some a \<Rightarrow> a | None \<Rightarrow> 0)
                 (filter (\<lambda>t. l_date t = d) ledger)
               = map (\<lambda>t. 0) (filter (\<lambda>t. l_date t = d) ledger)"
    by (intro map_cong refl) blast
  show ?thesis unfolding net_flow_def eq by simp
qed


lemma spec_scenario_deposit_grows:
  "TTWROR [(1, 1000), (30, 1100)] [deposit_tx 1 1000 0] = Some 10"
  by (simp add: TTWROR_def net_flow_def deposit_tx_def)

lemma value_history_fee_interest:
  "value_history ([deposit_tx 1 100 0] @ [fee_day2, interest_day3]) holdings_none [0] [1, 2, 3]
     = [(1, 100), (2, 0), (3, 50)]"
  by (simp add: value_history_def total_value_def balance_def account_effect_def
      deposit_tx_def fee_day2_def interest_day3_def holdings_none_def)

lemma value_history_fee_interest_pair:
  "value_history ([deposit_tx 1 100 0] @ [deposit_tx 2 70 0, removal_tx 2 70 0]
                    @ [fee_day2, interest_day3]) holdings_none [0] [1, 2, 3]
     = [(1, 100), (2, 0), (3, 50)]"
  by (simp add: value_history_def total_value_def balance_def account_effect_def
      deposit_tx_def removal_tx_def fee_day2_def interest_day3_def holdings_none_def)

lemma value_history_two_accounts:
  "value_history ([] @ ledger_one_deposit) holdings_grow [0, 1] [1, 15, 30]
     = [(1, 1000), (15, 1000), (30, 1100)]"
  by (simp add: value_history_def total_value_def balance_def account_effect_def
      ledger_one_deposit_def deposit_tx_def holdings_grow_def)

lemma value_history_two_accounts_pair:
  "value_history ([] @ [deposit_tx 15 500 0, removal_tx 15 500 1] @ ledger_one_deposit)
       holdings_grow [0, 1] [1, 15, 30]
     = [(1, 1000), (15, 1500), (30, 1600)]"
  by (simp add: value_history_def total_value_def balance_def account_effect_def
      ledger_one_deposit_def deposit_tx_def removal_tx_def holdings_grow_def)

text \<open>
  C2, as stated: for every ledger, inserting a deposit and an offsetting removal of equal
  value at the same date leaves TTWROR unchanged. Two ledgers where it does not. In the
  first, the portfolio value is 0 on day 2 (a deposit of 100, then a fee of 100, then
  interest of 50): TTWROR over the three days is -50 percent, and with the pair inserted
  on day 2 that day starts a sub-period at value 0, which has no return, so there is no
  TTWROR. In the second, the deposit goes to account 0 and the removal comes from
  account 1, which is empty: its balance becomes negative and is not part of the
  portfolio value, the value history changes, and TTWROR goes from 10 to 60 percent.
\<close>

theorem TTWROR_changed_by_offsetting_pair:
  "TTWROR (value_history ([deposit_tx 1 100 0] @ [fee_day2, interest_day3])
             holdings_none [0] [1, 2, 3])
          ([deposit_tx 1 100 0] @ [fee_day2, interest_day3]) = Some (- 50)
   \<and> TTWROR (value_history ([deposit_tx 1 100 0] @ [deposit_tx 2 70 0, removal_tx 2 70 0]
                                @ [fee_day2, interest_day3]) holdings_none [0] [1, 2, 3])
            ([deposit_tx 1 100 0] @ [deposit_tx 2 70 0, removal_tx 2 70 0]
               @ [fee_day2, interest_day3]) = None
   \<and> TTWROR (value_history ([] @ ledger_one_deposit) holdings_grow [0, 1] [1, 15, 30])
            ([] @ ledger_one_deposit) = Some 10
   \<and> TTWROR (value_history ([] @ [deposit_tx 15 500 0, removal_tx 15 500 1] @ ledger_one_deposit)
                holdings_grow [0, 1] [1, 15, 30])
            ([] @ [deposit_tx 15 500 0, removal_tx 15 500 1] @ ledger_one_deposit) = Some 60"
  unfolding value_history_fee_interest value_history_fee_interest_pair
    value_history_two_accounts value_history_two_accounts_pair
  by (simp add: TTWROR_def is_flow_date_def net_flow_def ledger_one_deposit_def
      deposit_tx_def removal_tx_def fee_day2_def interest_day3_def)

text \<open>
  C2, amended: inserting a deposit and an offsetting removal of the same amount on the
  same date and on the same account anywhere in the ledger leaves TTWROR unchanged, the
  market value of the holdings on every valuation date being the same, provided that
  date already has an external cash flow or the portfolio value on it is not 0 when it
  is a valuation date. The value history is the same, the net external cash flow of
  every date is the same, and the only sub-period boundary that can be new is the date
  of the insertion, where a sub-period that starts at value 0 would have no return.
\<close>

theorem TTWROR_offsetting_deposit_removal:
  assumes "is_flow_date (pre @ post) d
           \<or> (\<forall>p \<in> set (value_history (pre @ post) holdings_value accounts dates).
                 fst p = d \<longrightarrow> snd p \<noteq> 0)"
  shows "TTWROR (value_history (pre @ [deposit_tx d x a, removal_tx d x a] @ post)
                   holdings_value accounts dates)
                (pre @ [deposit_tx d x a, removal_tx d x a] @ post)
         = TTWROR (value_history (pre @ post) holdings_value accounts dates) (pre @ post)"
proof -
  let ?L = "pre @ post"
  let ?L' = "pre @ deposit_tx d x a # removal_tx d x a # post"
  let ?h = "value_history ?L holdings_value accounts dates"
  have h: "value_history ?L' holdings_value accounts dates = ?h" by (rule value_history_insert)
  have nf: "net_flow ?L' = net_flow ?L" by (rule ext) (rule net_flow_insert)
  have "TTWROR ?h ?L' = TTWROR ?h ?L"
  proof (cases "is_flow_date ?L d")
    case True
    have "is_flow_date ?L' e = is_flow_date ?L e" for e
      using True is_flow_date_insert [of pre d x a post e] by blast
    then have fd: "is_flow_date ?L' = is_flow_date ?L" by (rule ext)
    show ?thesis unfolding TTWROR_def nf fd ..
  next
    case False
    with assms have vnz: "\<forall>p \<in> set ?h. fst p = d \<longrightarrow> snd p \<noteq> 0" by blast
    show ?thesis
    proof (cases ?h)
      case Nil
      then show ?thesis by (simp add: TTWROR_def)
    next
      case (Cons p rest)
      obtain d0 v0 where p: "p = (d0, v0)" by (cases p)
      from vnz Cons have nz: "\<forall>p \<in> set rest. fst p = d \<longrightarrow> snd p \<noteq> 0" by simp
      have "link (is_flow_date ?L') (net_flow ?L) v0 rest
              = link (is_flow_date ?L) (net_flow ?L) v0 rest"
        using is_flow_date_insert net_flow_no_flow_date nz by (rule link_extra_boundary)
      then show ?thesis unfolding TTWROR_def Cons p nf by simp
    qed
  qed
  then show ?thesis by (simp add: h)
qed

theorem TTWROR_offsetting_deposit_removal_witness:
  "\<not> is_flow_date ([] @ ledger_one_deposit) 15
   \<and> value_history ([] @ ledger_one_deposit) holdings_grow [0] [1, 15, 30]
       = [(1, 1000), (15, 1000), (30, 1100)]
   \<and> (1000::real) \<noteq> 0
   \<and> TTWROR (value_history ([] @ ledger_one_deposit) holdings_grow [0] [1, 15, 30])
            ([] @ ledger_one_deposit) = Some 10
   \<and> TTWROR (value_history ([] @ [deposit_tx 15 500 0, removal_tx 15 500 0] @ ledger_one_deposit)
                holdings_grow [0] [1, 15, 30])
            ([] @ [deposit_tx 15 500 0, removal_tx 15 500 0] @ ledger_one_deposit) = Some 10"
proof -
  have nfd: "\<not> is_flow_date ([] @ ledger_one_deposit) 15"
    by (simp add: is_flow_date_def ledger_one_deposit_def deposit_tx_def)
  have vh: "value_history ([] @ ledger_one_deposit) holdings_grow [0] [1, 15, 30]
              = [(1, 1000), (15, 1000), (30, 1100)]"
    by (simp add: value_history_def total_value_def balance_def account_effect_def
        ledger_one_deposit_def deposit_tx_def holdings_grow_def)
  have nz: "\<forall>p \<in> set (value_history ([] @ ledger_one_deposit) holdings_grow [0] [1, 15, 30]).
              fst p = 15 \<longrightarrow> snd p \<noteq> 0"
    unfolding vh by simp
  have t: "TTWROR (value_history ([] @ ledger_one_deposit) holdings_grow [0] [1, 15, 30])
             ([] @ ledger_one_deposit) = Some 10"
    unfolding vh
    by (simp add: TTWROR_def is_flow_date_def net_flow_def ledger_one_deposit_def deposit_tx_def)
  from TTWROR_offsetting_deposit_removal [OF disjI2 [OF nz], of 500 0] nfd t vh
  show ?thesis by simp
qed

subsection \<open>Volatility\<close>

lemma sum_squares_nonneg: "0 \<le> sum_list (map (\<lambda>r. (r - m)\<^sup>2) rs)" for m :: real
  by (induction rs) simp_all

lemma standard_deviation_nonneg: "0 \<le> standard_deviation rs"
  unfolding standard_deviation_def
  by (intro real_sqrt_ge_zero divide_nonneg_nonneg sum_squares_nonneg) simp

lemma standard_deviation_square:
  "(standard_deviation rs)\<^sup>2 * real (length rs - 1)
     = (if length rs < 2 then 0 else sum_list (map (\<lambda>r. (r - mean_return rs)\<^sup>2) rs))"
proof -
  have "0 \<le> sum_list (map (\<lambda>r. (r - mean_return rs)\<^sup>2) rs) / real (length rs - 1)"
    by (intro divide_nonneg_nonneg sum_squares_nonneg) simp
  then have "(standard_deviation rs)\<^sup>2
               = sum_list (map (\<lambda>r. (r - mean_return rs)\<^sup>2) rs) / real (length rs - 1)"
    unfolding standard_deviation_def by simp
  then show ?thesis by (cases "length rs < 2") auto
qed

text \<open>
  C4. The volatility is the standard deviation of the monthly returns times the square
  root of 12 (its square is 12 times the sum of the squared deviations from the mean
  over \<open>n - 1\<close>); it is exactly 0 when there are fewer than 2 monthly returns, and it is
  never negative.
\<close>

theorem volatility_annualized_stdev:
  "(length ms < 2 \<longrightarrow> volatility ms = 0)
   \<and> (\<not> length ms < 2 \<longrightarrow>
        volatility ms = standard_deviation (map return_pct ms) * sqrt 12
        \<and> (volatility ms)\<^sup>2 * real (length ms - 1)
            = 12 * sum_list (map (\<lambda>r. (r - mean_return (map return_pct ms))\<^sup>2)
                                 (map return_pct ms)))
   \<and> 0 \<le> volatility ms"
proof (intro conjI impI)
  show "volatility ms = 0" if "length ms < 2"
    using that by (simp add: volatility_def)
  show "volatility ms = standard_deviation (map return_pct ms) * sqrt 12" if "\<not> length ms < 2"
    using that by (simp add: volatility_def)
  show "(volatility ms)\<^sup>2 * real (length ms - 1)
            = 12 * sum_list (map (\<lambda>r. (r - mean_return (map return_pct ms))\<^sup>2)
                                 (map return_pct ms))" if "\<not> length ms < 2"
  proof -
    have "(volatility ms)\<^sup>2 * real (length ms - 1)
            = 12 * ((standard_deviation (map return_pct ms))\<^sup>2
                      * real (length (map return_pct ms) - 1))"
      using that by (simp add: volatility_def power_mult_distrib)
    also have "\<dots> = 12 * sum_list (map (\<lambda>r. (r - mean_return (map return_pct ms))\<^sup>2)
                                 (map return_pct ms))"
      using that standard_deviation_square [of "map return_pct ms"] by simp
    finally show ?thesis .
  qed
  show "0 \<le> volatility ms"
    by (simp add: volatility_def standard_deviation_nonneg)
qed

theorem volatility_annualized_stdev_witness:
  "length [hd two_months] < 2 \<and> volatility [hd two_months] = 0
   \<and> \<not> length two_months < 2
   \<and> mean_return (map return_pct two_months) = 2
   \<and> (volatility two_months)\<^sup>2 = 24"
proof -
  have l1: "length [hd two_months] < 2" by simp
  have l2: "\<not> length two_months < 2" by (simp add: two_months_def)
  have m: "mean_return (map return_pct two_months) = 2"
    by (simp add: mean_return_def two_months_def)
  from volatility_annualized_stdev [of "[hd two_months]"] l1
  have v1: "volatility [hd two_months] = 0" by blast
  from volatility_annualized_stdev [of two_months] l2
  have "(volatility two_months)\<^sup>2 * real (length two_months - 1)
            = 12 * sum_list (map (\<lambda>r. (r - mean_return (map return_pct two_months))\<^sup>2)
                                 (map return_pct two_months))"
    by blast
  then have v2: "(volatility two_months)\<^sup>2 = 24"
    unfolding m by (simp add: two_months_def)
  from l1 v1 l2 m v2 show ?thesis by (intro conjI)
qed

end
